theory Spec2Isabelle
  imports Main "HOL-Library.Word" "HOL-Library.AList"
begin

unbundle bit_operations_syntax

section \<open>Data model\<close>

text \<open>
  The interface of \<^verbatim>\<open>src/network_interface.cc\<close>. The members keep their names
  without the trailing underscore. The two address maps are association lists, read
  with \<open>map_of\<close> (\<open>count\<close>, \<open>operator[]\<close> on a present key) and written with
  \<open>AList.update\<close> (\<open>operator[]\<close> as an assignment, which inserts a missing key) and
  \<open>AList.delete\<close> (\<open>erase\<close>); the deferred queue and the frame queue are lists with
  the oldest element first.

  Modelled from the spec: the headers that declare \<open>Address\<close>, \<open>EthernetAddress\<close>,
  \<open>EthernetHeader\<close>, \<open>EthernetFrame\<close> and \<open>ARPMessage\<close> are not among the sources. A
  hardware address is six bytes, a protocol address 32 bits, a frame has source,
  destination, a 16-bit type and a payload, an ARP message has an opcode and the
  sender's and target's two addresses, and the broadcast hardware address has all bits
  set. \<open>Address\<close> is used by the source only through \<open>ipv4_numeric()\<close>, so the record
  keeps that one field; of an ARP message the record keeps the fields the source reads
  or writes. The type and opcode numbers are those of Ethernet and ARP; the theorems
  use of them only that the two frame types differ from each other and from zero.
\<close>

type_synonym EthernetAddress = "48 word"
type_synonym payload = "8 word list"

record Address =
  ipv4_numeric :: "32 word"

record EthernetHeader =
  dst :: EthernetAddress
  src :: EthernetAddress
  type :: "16 word"

record EthernetFrame =
  header :: EthernetHeader
  payload :: payload

record ARPMessage =
  opcode :: "16 word"
  sender_ethernet_address :: EthernetAddress
  sender_ip_address :: "32 word"
  target_ethernet_address :: EthernetAddress
  target_ip_address :: "32 word"

definition TYPE_IPv4 :: "16 word" where "TYPE_IPv4 = 0x800"
definition TYPE_ARP :: "16 word" where "TYPE_ARP = 0x806"
definition OPCODE_REQUEST :: "16 word" where "OPCODE_REQUEST = 1"
definition OPCODE_REPLY :: "16 word" where "OPCODE_REPLY = 2"
definition ETHERNET_BROADCAST :: EthernetAddress where "ETHERNET_BROADCAST = 0xFFFFFFFFFFFF"

text \<open>
  What the source takes from outside this file: the wire codecs (\<open>serialize\<close>, and
  \<open>parse\<close>, which fills the caller's object in place and reports success) and the order
  in which the container behind \<open>arp_clock_\<close> hands out its keys to a range-for loop.
  For \<open>parse\<close> of an ARP message the second component is the content of the caller's
  \<open>arp_msg\<close> after the call, also when the first component says that parsing failed.
\<close>

record 'd env =
  serialize_dgram :: "'d \<Rightarrow> payload"
  parse_dgram :: "payload \<Rightarrow> 'd option"
  serialize_arp :: "ARPMessage \<Rightarrow> payload"
  parse_arp :: "payload \<Rightarrow> bool \<times> ARPMessage"
  clock_order :: "(32 word \<times> int) list \<Rightarrow> 32 word list"

record 'd NetworkInterface =
  ethernet_address :: EthernetAddress
  ip_address :: Address
  arp_table :: "(32 word \<times> EthernetAddress) list"
  arp_clock :: "(32 word \<times> int) list"
  dgram_table :: "(Address \<times> 'd) list"
  outgoing_frames :: "EthernetFrame list"

definition new_interface :: "EthernetAddress \<Rightarrow> Address \<Rightarrow> 'd NetworkInterface" where
  "new_interface eth ip =
     \<lparr>ethernet_address = eth, ip_address = ip, arp_table = [], arp_clock = [],
      dgram_table = [], outgoing_frames = []\<rparr>"

text \<open>
  The frame that \<open>EthernetFrame frame;\<close> declares in \<open>send_datagram\<close> before any branch
  fills it: taken as value-initialised, a zeroed header and no payload.
\<close>

definition empty_frame :: EthernetFrame where
  "empty_frame = \<lparr>header = \<lparr>dst = 0, src = 0, type = 0\<rparr>, payload = []\<rparr>"

section \<open>The age counter\<close>

text \<open>
  The values of \<open>arp_clock_\<close> are C++ \<open>int\<close>s (the loop of \<open>tick\<close> copies an entry into a
  \<open>std::pair<uint32_t, int>\<close>) and \<open>ms_since_last_tick\<close> is a \<open>size_t\<close>. In
  \<open>c += ms\<close> and \<open>c -= ms\<close> the counter is converted to \<open>size_t\<close>, the arithmetic is
  done modulo \<open>2^64\<close>, and the result is converted back to \<open>int\<close>, which keeps the low 32
  bits as a two's complement number; no step of this is undefined behaviour.
  \<open>to_int32\<close> is that last conversion on the mathematical value; since \<open>2^32\<close> divides
  \<open>2^64\<close> it gives the whole effect. Counters are \<open>int\<close> in the model, elapsed
  milliseconds \<open>64 word\<close>.
\<close>

definition to_int32 :: "int \<Rightarrow> int" where
  "to_int32 x = (x + 2147483648) mod 4294967296 - 2147483648"

definition clock_add :: "int \<Rightarrow> 64 word \<Rightarrow> int" where
  "clock_add c ms = to_int32 (c + uint ms)"

definition clock_sub :: "int \<Rightarrow> 64 word \<Rightarrow> int" where
  "clock_sub c ms = to_int32 (c - uint ms)"

section \<open>Operations\<close>

definition push_frame :: "EthernetFrame \<Rightarrow> 'd NetworkInterface \<Rightarrow> 'd NetworkInterface" where
  "push_frame f ni = ni\<lparr>outgoing_frames := outgoing_frames ni @ [f]\<rparr>"

definition arp_request :: "'d NetworkInterface \<Rightarrow> 32 word \<Rightarrow> ARPMessage" where
  "arp_request ni next_ip =
     \<lparr>opcode = OPCODE_REQUEST,
      sender_ethernet_address = ethernet_address ni,
      sender_ip_address = ipv4_numeric (ip_address ni),
      target_ethernet_address = 0,
      target_ip_address = next_ip\<rparr>"

text \<open>
  \<open>send_datagram\<close>: the three branches of the source in their order, and the path on
  which none of them runs and the default-constructed frame is pushed.
\<close>

definition send_datagram ::
  "'d env \<Rightarrow> 'd \<Rightarrow> Address \<Rightarrow> 'd NetworkInterface \<Rightarrow> 'd NetworkInterface" where
  "send_datagram ev dgram next_hop ni =
     (let next_ip = ipv4_numeric next_hop in
      case map_of (arp_table ni) next_ip of
        Some mac \<Rightarrow>
          push_frame
            \<lparr>header = \<lparr>dst = mac, src = ethernet_address ni, type = TYPE_IPv4\<rparr>,
             payload = serialize_dgram ev dgram\<rparr> ni
      | None \<Rightarrow>
         (case map_of (arp_clock ni) next_ip of
            None \<Rightarrow>
              push_frame
                \<lparr>header = \<lparr>dst = ETHERNET_BROADCAST, src = ethernet_address ni, type = TYPE_ARP\<rparr>,
                 payload = serialize_arp ev (arp_request ni next_ip)\<rparr>
                (ni\<lparr>dgram_table := dgram_table ni @ [(next_hop, dgram)],
                    arp_clock := AList.update next_ip (- 1) (arp_clock ni)\<rparr>)
          | Some c \<Rightarrow>
              if c < 0 then ni\<lparr>dgram_table := dgram_table ni @ [(next_hop, dgram)]\<rparr>
              else push_frame empty_frame ni))"

text \<open>
  \<open>retrieve_datagram\<close>: the loop over the deferred queue with its index counter. The
  entry found is sent first and erased at its index afterwards, as in the source.
\<close>

definition clock_ready :: "'d NetworkInterface \<Rightarrow> 32 word \<Rightarrow> bool" where
  "clock_ready ni ip = (case map_of (arp_clock ni) ip of None \<Rightarrow> False | Some c \<Rightarrow> 0 \<le> c)"

definition erase_at :: "nat \<Rightarrow> 'a list \<Rightarrow> 'a list" where
  "erase_at idx xs = take idx xs @ drop (Suc idx) xs"

fun retrieve_loop ::
  "'d env \<Rightarrow> nat \<Rightarrow> (Address \<times> 'd) list \<Rightarrow> 'd NetworkInterface \<Rightarrow> 'd NetworkInterface" where
  "retrieve_loop ev idx [] ni = ni"
| "retrieve_loop ev idx (entry # rest) ni =
     (if clock_ready ni (ipv4_numeric (fst entry)) then
        (let ni1 = send_datagram ev (snd entry) (fst entry) ni
         in ni1\<lparr>dgram_table := erase_at idx (dgram_table ni1)\<rparr>)
      else retrieve_loop ev (Suc idx) rest ni)"

definition retrieve_datagram :: "'d env \<Rightarrow> 'd NetworkInterface \<Rightarrow> 'd NetworkInterface" where
  "retrieve_datagram ev ni = retrieve_loop ev 0 (dgram_table ni) ni"

text \<open>
  \<open>recv_frame\<close>: a delivered IPv4 datagram returns at once; otherwise the ARP part runs
  (the reply test stands after the parse test, not inside it) and then the flush.
\<close>

definition arp_reply :: "'d NetworkInterface \<Rightarrow> ARPMessage \<Rightarrow> ARPMessage" where
  "arp_reply ni arp_msg =
     arp_msg\<lparr>target_ethernet_address := sender_ethernet_address arp_msg,
             target_ip_address := sender_ip_address arp_msg,
             sender_ethernet_address := ethernet_address ni,
             sender_ip_address := ipv4_numeric (ip_address ni),
             opcode := OPCODE_REPLY\<rparr>"

definition recv_arp :: "'d env \<Rightarrow> EthernetFrame \<Rightarrow> 'd NetworkInterface \<Rightarrow> 'd NetworkInterface" where
  "recv_arp ev frame ni =
     (let (ok, arp_msg) = parse_arp ev (payload frame);
          ni1 = (if ok then
                   ni\<lparr>arp_table := AList.update (sender_ip_address arp_msg)
                                     (sender_ethernet_address arp_msg) (arp_table ni),
                      arp_clock := AList.update (sender_ip_address arp_msg) 0 (arp_clock ni)\<rparr>
                 else ni)
      in if target_ip_address arp_msg = ipv4_numeric (ip_address ni)
            \<and> opcode arp_msg = OPCODE_REQUEST
         then push_frame
                \<lparr>header = \<lparr>dst = target_ethernet_address (arp_reply ni arp_msg),
                            src = ethernet_address ni, type = TYPE_ARP\<rparr>,
                 payload = serialize_arp ev (arp_reply ni arp_msg)\<rparr> ni1
         else ni1)"

definition recv_frame ::
  "'d env \<Rightarrow> EthernetFrame \<Rightarrow> 'd NetworkInterface \<Rightarrow> 'd option \<times> 'd NetworkInterface" where
  "recv_frame ev frame ni =
     (case (if type (header frame) = TYPE_IPv4 \<and> dst (header frame) = ethernet_address ni
            then parse_dgram ev (payload frame) else None) of
        Some dgram \<Rightarrow> (Some dgram, ni)
      | None \<Rightarrow>
          (None, retrieve_datagram ev
                   (if type (header frame) = TYPE_ARP then recv_arp ev frame ni else ni)))"

definition maybe_send :: "'d NetworkInterface \<Rightarrow> EthernetFrame option \<times> 'd NetworkInterface" where
  "maybe_send ni =
     (case outgoing_frames ni of
        [] \<Rightarrow> (None, ni)
      | frame # rest \<Rightarrow> (Some frame, ni\<lparr>outgoing_frames := rest\<rparr>))"

text \<open>
  \<open>tick\<close>: the loop visits the keys in the container's order. \<open>arp_clock_[k]\<close> reads
  the counter of \<open>k\<close> (a missing key would be inserted with value 0). A non-negative
  counter is advanced and the loop goes on unless the entry is evicted; a negative
  counter is advanced and the loop stops there in either case.
\<close>

definition clock_at :: "'d NetworkInterface \<Rightarrow> 32 word \<Rightarrow> int" where
  "clock_at ni k = (case map_of (arp_clock ni) k of None \<Rightarrow> 0 | Some c \<Rightarrow> c)"

fun tick_loop :: "64 word \<Rightarrow> 32 word list \<Rightarrow> 'd NetworkInterface \<Rightarrow> 'd NetworkInterface" where
  "tick_loop ms [] ni = ni"
| "tick_loop ms (k # ks) ni =
     (if 0 \<le> clock_at ni k then
        (let ni1 = ni\<lparr>arp_clock := AList.update k (clock_add (clock_at ni k) ms) (arp_clock ni)\<rparr>
         in if 30000 \<le> clock_at ni1 k
            then ni1\<lparr>arp_table := AList.delete k (arp_table ni1),
                     arp_clock := AList.delete k (arp_clock ni1)\<rparr>
            else tick_loop ms ks ni1)
      else
        (let ni1 = ni\<lparr>arp_clock := AList.update k (clock_sub (clock_at ni k) ms) (arp_clock ni)\<rparr>
         in if clock_at ni1 k \<le> - 5001
            then ni1\<lparr>arp_clock := AList.delete k (arp_clock ni1)\<rparr>
            else ni1))"

definition tick :: "'d env \<Rightarrow> 64 word \<Rightarrow> 'd NetworkInterface \<Rightarrow> 'd NetworkInterface" where
  "tick ev ms ni =
     (if arp_clock ni = [] then ni
      else retrieve_datagram ev (tick_loop ms (clock_order ev (arp_clock ni)) ni))"

section \<open>Calls and runs\<close>

text \<open>The four entry points as a datatype of calls, and the state after a list of calls.\<close>

datatype 'd call = Send 'd Address | Recv EthernetFrame | Tick "64 word" | MaybeSend

fun exec :: "'d env \<Rightarrow> 'd call \<Rightarrow> 'd NetworkInterface \<Rightarrow> 'd NetworkInterface" where
  "exec ev (Send dgram next_hop) ni = send_datagram ev dgram next_hop ni"
| "exec ev (Recv frame) ni = snd (recv_frame ev frame ni)"
| "exec ev (Tick ms) ni = tick ev ms ni"
| "exec ev MaybeSend ni = snd (maybe_send ni)"

definition run :: "'d env \<Rightarrow> 'd call list \<Rightarrow> 'd NetworkInterface \<Rightarrow> 'd NetworkInterface" where
  "run ev cs ni = foldl (\<lambda>s c. exec ev c s) ni cs"

definition ticks :: "'d env \<Rightarrow> 64 word list \<Rightarrow> 'd NetworkInterface \<Rightarrow> 'd NetworkInterface" where
  "ticks ev mss ni = foldl (\<lambda>s ms. tick ev ms s) ni mss"

text \<open>
  A tick is \<open>small\<close> when the counter arithmetic cannot leave the range of \<open>int\<close>:
  \<open>29999 + 2147453648 = 2^31 - 1\<close>.
\<close>

definition small_tick :: "64 word \<Rightarrow> bool" where
  "small_tick ms = (uint ms \<le> 2147453648)"

fun small_call :: "'d call \<Rightarrow> bool" where
  "small_call (Tick ms) = small_tick ms"
| "small_call _ = True"

text \<open>A container hands out each of its keys once, in some order.\<close>

definition order_ok :: "'d env \<Rightarrow> bool" where
  "order_ok ev =
     (\<forall>l. distinct (map fst l) \<longrightarrow>
        distinct (clock_order ev l) \<and> set (clock_order ev l) = fst ` set l)"

section \<open>States of an address\<close>

text \<open>
  \<open>Unknown\<close>: in neither map. \<open>clock_ready\<close> above is the test the flush applies,
  a record that is present and non-negative. \<open>populated\<close> is a frame as the branches of
  \<open>send_datagram\<close> and the reply path build it.
\<close>

definition Unknown :: "'d NetworkInterface \<Rightarrow> 32 word \<Rightarrow> bool" where
  "Unknown ni ip = (map_of (arp_table ni) ip = None \<and> map_of (arp_clock ni) ip = None)"

definition populated :: "EthernetAddress \<Rightarrow> EthernetFrame \<Rightarrow> bool" where
  "populated eth f =
     ((type (header f) = TYPE_IPv4 \<or> type (header f) = TYPE_ARP) \<and> src (header f) = eth)"

definition request_frame :: "'d env \<Rightarrow> 'd NetworkInterface \<Rightarrow> 32 word \<Rightarrow> EthernetFrame" where
  "request_frame ev ni next_ip =
     \<lparr>header = \<lparr>dst = ETHERNET_BROADCAST, src = ethernet_address ni, type = TYPE_ARP\<rparr>,
      payload = serialize_arp ev (arp_request ni next_ip)\<rparr>"

section \<open>An environment for evaluation\<close>

text \<open>
  Concrete collaborators, used to run the model on explicit frames. An ARP payload is
  the 28 bytes of an Ethernet/IPv4 ARP packet: hardware type 1, protocol type 0x0800,
  address sizes 6 and 4, opcode, then sender and target addresses, all big-endian. The
  parser reads field by field into a zero-initialised message and stops with an error
  at an unsupported fixed part or when the input runs out; what it did not reach keeps
  its zero (a hardware address is read byte by byte, the other fields whole). A datagram is its own serialisation and parses when it has the 20
  bytes of an IPv4 header. The keys of \<open>arp_clock_\<close> come in list order, or reversed.
\<close>

definition be_bytes :: "nat \<Rightarrow> 'a::len word \<Rightarrow> 8 word list" where
  "be_bytes n w = map (\<lambda>i. ucast (drop_bit (8 * (n - 1 - i)) w)) [0..<n]"

definition be_word :: "8 word list \<Rightarrow> 'a::len word" where
  "be_word bs = foldl (\<lambda>acc b. push_bit 8 acc OR ucast b) 0 bs"

definition field :: "nat \<Rightarrow> nat \<Rightarrow> payload \<Rightarrow> 'a::len word" where
  "field off n bs = (if off + n \<le> length bs then be_word (take n (drop off bs)) else 0)"

definition mac_field :: "nat \<Rightarrow> payload \<Rightarrow> EthernetAddress" where
  "mac_field off bs = be_word (take 6 (drop off bs @ [0, 0, 0, 0, 0, 0]))"

definition wire_serialize_arp :: "ARPMessage \<Rightarrow> payload" where
  "wire_serialize_arp m =
     [0, 1, 8, 0, 6, 4] @ be_bytes 2 (opcode m)
     @ be_bytes 6 (sender_ethernet_address m) @ be_bytes 4 (sender_ip_address m)
     @ be_bytes 6 (target_ethernet_address m) @ be_bytes 4 (target_ip_address m)"

definition wire_parse_arp :: "payload \<Rightarrow> bool \<times> ARPMessage" where
  "wire_parse_arp bs =
     (let op = field 6 2 bs in
      if length bs < 8 \<or> take 6 bs \<noteq> [0, 1, 8, 0, 6, 4]
         \<or> (op \<noteq> OPCODE_REQUEST \<and> op \<noteq> OPCODE_REPLY)
      then (False, \<lparr>opcode = op, sender_ethernet_address = 0, sender_ip_address = 0,
                    target_ethernet_address = 0, target_ip_address = 0\<rparr>)
      else (28 \<le> length bs,
            \<lparr>opcode = op, sender_ethernet_address = mac_field 8 bs,
             sender_ip_address = field 14 4 bs, target_ethernet_address = mac_field 18 bs,
             target_ip_address = field 24 4 bs\<rparr>))"

definition wire_env :: "payload env" where
  "wire_env =
     \<lparr>serialize_dgram = (\<lambda>d. d),
      parse_dgram = (\<lambda>bs. if 20 \<le> length bs then Some bs else None),
      serialize_arp = wire_serialize_arp,
      parse_arp = wire_parse_arp,
      clock_order = map fst\<rparr>"

definition wire_env_rev :: "payload env" where
  "wire_env_rev = wire_env\<lparr>clock_order := (\<lambda>l. rev (map fst l))\<rparr>"

text \<open>
  Interface A (\<open>aa:aa:aa:aa:aa:aa\<close>, 1.1.1.1), two neighbours B (2.2.2.2) and C (3.3.3.3),
  and three datagrams.
\<close>

definition macA :: EthernetAddress where "macA = 0xAAAAAAAAAAAA"
definition macB :: EthernetAddress where "macB = 0xBBBBBBBBBBBB"
definition macC :: EthernetAddress where "macC = 0xCCCCCCCCCCCC"
definition ipA :: Address where "ipA = \<lparr>ipv4_numeric = 0x01010101\<rparr>"
definition ipB :: Address where "ipB = \<lparr>ipv4_numeric = 0x02020202\<rparr>"
definition ipC :: Address where "ipC = \<lparr>ipv4_numeric = 0x03030303\<rparr>"

definition ifA :: "payload NetworkInterface" where
  "ifA = new_interface macA ipA"

definition dgram1 :: payload where
  "dgram1 = [0x45, 0, 0, 20, 0, 0, 0, 0, 64, 0, 0, 0, 1, 1, 1, 1, 2, 2, 2, 2]"
definition dgram2 :: payload where
  "dgram2 = [0x45, 0, 0, 20, 0, 1, 0, 0, 64, 0, 0, 0, 1, 1, 1, 1, 2, 2, 2, 2]"
definition dgram3 :: payload where
  "dgram3 = [0x45, 0, 0, 20, 0, 2, 0, 0, 64, 0, 0, 0, 1, 1, 1, 1, 3, 3, 3, 3]"

definition arp_frame :: "EthernetAddress \<Rightarrow> ARPMessage \<Rightarrow> EthernetFrame" where
  "arp_frame to m =
     \<lparr>header = \<lparr>dst = to, src = sender_ethernet_address m, type = TYPE_ARP\<rparr>,
      payload = wire_serialize_arp m\<rparr>"

definition reply_from_B :: EthernetFrame where
  "reply_from_B =
     arp_frame macA \<lparr>opcode = OPCODE_REPLY, sender_ethernet_address = macB,
                     sender_ip_address = 0x02020202, target_ethernet_address = macA,
                     target_ip_address = 0x01010101\<rparr>"

definition reply_from_C :: EthernetFrame where
  "reply_from_C =
     arp_frame macA \<lparr>opcode = OPCODE_REPLY, sender_ethernet_address = macC,
                     sender_ip_address = 0x03030303, target_ethernet_address = macA,
                     target_ip_address = 0x01010101\<rparr>"

definition request_from_B :: EthernetFrame where
  "request_from_B =
     arp_frame ETHERNET_BROADCAST
       \<lparr>opcode = OPCODE_REQUEST, sender_ethernet_address = macB,
        sender_ip_address = 0x02020202, target_ethernet_address = 0,
        target_ip_address = 0x01010101\<rparr>"

text \<open>
  An interface whose own address is 0.0.0.0, an ARP request cut off after its opcode,
  and an IPv4 frame addressed to interface A.
\<close>

definition if0 :: "payload NetworkInterface" where
  "if0 = new_interface macA \<lparr>ipv4_numeric = 0\<rparr>"

definition truncated_request :: EthernetFrame where
  "truncated_request =
     \<lparr>header = \<lparr>dst = ETHERNET_BROADCAST, src = macB, type = TYPE_ARP\<rparr>,
      payload = [0, 1, 8, 0, 6, 4, 0, 1]\<rparr>"

definition ipv4_frame :: EthernetFrame where
  "ipv4_frame = \<lparr>header = \<lparr>dst = macA, src = macB, type = TYPE_IPv4\<rparr>, payload = dgram3\<rparr>"

section \<open>The two maps in lockstep\<close>

text \<open>
  \<open>lockstep\<close> relates the cache map and the age map: every age record lies between
  the cooldown bound and the TTL, an address has a cache entry exactly when its record
  is non-negative, and an address without a record has no cache entry. \<open>consistent\<close>
  adds that the keys of the age map are distinct and that every queued frame is
  populated.
\<close>

definition lockstep :: "(32 word \<rightharpoonup> EthernetAddress) \<Rightarrow> (32 word \<rightharpoonup> int) \<Rightarrow> bool" where
  "lockstep T C =
     ((\<forall>ip c. C ip = Some c \<longrightarrow> - 5000 \<le> c \<and> c < 30000 \<and> (T ip \<noteq> None) = (0 \<le> c))
      \<and> (\<forall>ip. C ip = None \<longrightarrow> T ip = None))"

definition consistent :: "'d NetworkInterface \<Rightarrow> bool" where
  "consistent ni =
     (distinct (map fst (arp_clock ni))
      \<and> lockstep (map_of (arp_table ni)) (map_of (arp_clock ni))
      \<and> (\<forall>f \<in> set (outgoing_frames ni). populated (ethernet_address ni) f))"

text \<open>
  \<open>awaiting ni k lo\<close>: address \<open>k\<close> has no cache entry and a negative age record not
  below \<open>lo\<close>.
\<close>

definition awaiting :: "'d NetworkInterface \<Rightarrow> 32 word \<Rightarrow> int \<Rightarrow> bool" where
  "awaiting ni k lo =
     (map_of (arp_table ni) k = None
      \<and> (\<exists>c. map_of (arp_clock ni) k = Some c \<and> lo \<le> c \<and> c < 0))"

text \<open>
  \<open>others_cached ni k lim\<close>: the keys of the age map are distinct and every record
  other than that of \<open>k\<close> is non-negative and below \<open>lim\<close>. \<open>others_fresh\<close> is the
  same inside one run of the loop of \<open>tick\<close> over the keys \<open>ks\<close> still to visit:
  a record already visited has grown by at most \<open>ms\<close>.
\<close>

definition others_cached :: "'d NetworkInterface \<Rightarrow> 32 word \<Rightarrow> int \<Rightarrow> bool" where
  "others_cached ni k lim =
     (distinct (map fst (arp_clock ni))
      \<and> (\<forall>j cj. j \<noteq> k \<longrightarrow> map_of (arp_clock ni) j = Some cj \<longrightarrow> 0 \<le> cj \<and> cj < lim))"

definition others_fresh ::
  "'d NetworkInterface \<Rightarrow> 32 word \<Rightarrow> 32 word list \<Rightarrow> int \<Rightarrow> 64 word \<Rightarrow> bool" where
  "others_fresh ni k ks lim ms =
     (distinct ks \<and> set ks \<subseteq> fst ` set (arp_clock ni)
      \<and> distinct (map fst (arp_clock ni))
      \<and> (\<forall>j cj. j \<noteq> k \<longrightarrow> map_of (arp_clock ni) j = Some cj \<longrightarrow>
             0 \<le> cj \<and> cj < lim + uint ms \<and> (j \<in> set ks \<longrightarrow> cj < lim)))"

section \<open>Unfolding rules for evaluation\<close>

lemmas model_defs =
  send_datagram_def retrieve_datagram_def recv_frame_def recv_arp_def maybe_send_def
  tick_def clock_ready_def clock_at_def clock_add_def clock_sub_def to_int32_def
  erase_at_def push_frame_def arp_request_def arp_reply_def request_frame_def
  new_interface_def empty_frame_def run_def ticks_def small_tick_def
  TYPE_IPv4_def TYPE_ARP_def OPCODE_REQUEST_def OPCODE_REPLY_def ETHERNET_BROADCAST_def

lemmas wire_defs =
  wire_env_def wire_env_rev_def wire_parse_arp_def wire_serialize_arp_def field_def mac_field_def
  be_bytes_def be_word_def arp_frame_def reply_from_B_def reply_from_C_def
  request_from_B_def macA_def macB_def macC_def ipA_def ipB_def ipC_def ifA_def
  dgram1_def dgram2_def dgram3_def

lemmas wire2 = if0_def truncated_request_def ipv4_frame_def

lemma order_ok_wire: "order_ok wire_env"
  by (simp add: order_ok_def wire_env_def)

section \<open>Counter arithmetic without overflow\<close>

lemma to_int32_id: "- 2147483648 \<le> x \<Longrightarrow> x < 2147483648 \<Longrightarrow> to_int32 x = x"
  by (simp add: to_int32_def)

lemma clock_add_small:
  assumes "small_tick ms" "0 \<le> c" "c < 30000"
  shows "clock_add c ms = c + uint ms"
proof -
  have "- 2147483648 \<le> c + uint ms" "c + uint ms < 2147483648"
    using assms uint_ge_0 [of ms] unfolding small_tick_def by linarith+
  then show ?thesis by (simp add: clock_add_def to_int32_id)
qed

lemma clock_sub_small:
  assumes "small_tick ms" "- 5000 \<le> c" "c < 0"
  shows "clock_sub c ms = c - uint ms"
proof -
  have "- 2147483648 \<le> c - uint ms" "c - uint ms < 2147483648"
    using assms uint_ge_0 [of ms] unfolding small_tick_def by linarith+
  then show ?thesis by (simp add: clock_sub_def to_int32_id)
qed

lemma sum_uint_nonneg: "0 \<le> sum_list (map uint (mss :: 64 word list))"
  by (induction mss) simp_all

section \<open>The outbound path\<close>

lemma send_unknown:
  assumes "Unknown ni (ipv4_numeric nh)"
  shows "send_datagram ev d nh ni =
           ni\<lparr>dgram_table := dgram_table ni @ [(nh, d)],
              arp_clock := AList.update (ipv4_numeric nh) (- 1) (arp_clock ni),
              outgoing_frames := outgoing_frames ni @ [request_frame ev ni (ipv4_numeric nh)]\<rparr>"
  using assms
  by (simp add: Unknown_def send_datagram_def push_frame_def request_frame_def Let_def)

lemma send_pending:
  assumes "map_of (arp_table ni) (ipv4_numeric nh) = None"
    "map_of (arp_clock ni) (ipv4_numeric nh) = Some c" "c < 0"
  shows "send_datagram ev d nh ni = ni\<lparr>dgram_table := dgram_table ni @ [(nh, d)]\<rparr>"
  using assms by (simp add: send_datagram_def Let_def)

lemma send_cached:
  assumes "map_of (arp_table ni) (ipv4_numeric nh) = Some mac"
  shows "send_datagram ev d nh ni =
           ni\<lparr>outgoing_frames := outgoing_frames ni
                @ [\<lparr>header = \<lparr>dst = mac, src = ethernet_address ni, type = TYPE_IPv4\<rparr>,
                    payload = serialize_dgram ev d\<rparr>]\<rparr>"
  using assms by (simp add: send_datagram_def push_frame_def Let_def)

lemma send_datagram_ready:
  assumes "clock_ready ni (ipv4_numeric nh)"
  shows "dgram_table (send_datagram ev d nh ni) = dgram_table ni"
    and "arp_table (send_datagram ev d nh ni) = arp_table ni"
    and "arp_clock (send_datagram ev d nh ni) = arp_clock ni"
    and "ethernet_address (send_datagram ev d nh ni) = ethernet_address ni"
    and "ip_address (send_datagram ev d nh ni) = ip_address ni"
  using assms
  by (auto simp: send_datagram_def clock_ready_def push_frame_def Let_def split: option.splits)

lemma send_datagram_ready_frames:
  assumes "clock_ready ni (ipv4_numeric nh)"
  shows "\<exists>f. outgoing_frames (send_datagram ev d nh ni) = outgoing_frames ni @ [f]
            \<and> (f = empty_frame \<or> type (header f) = TYPE_IPv4)"
  using assms
  by (auto simp: send_datagram_def clock_ready_def push_frame_def Let_def split: option.splits)

lemma send_datagram_frames:
  "outgoing_frames (send_datagram ev d nh ni) = outgoing_frames ni
   \<or> (\<exists>f. outgoing_frames (send_datagram ev d nh ni) = outgoing_frames ni @ [f])"
  by (simp add: send_datagram_def push_frame_def Let_def split: option.splits)

lemma eth_send: "ethernet_address (send_datagram ev d nh ni) = ethernet_address ni"
  by (simp add: send_datagram_def push_frame_def Let_def split: option.splits)

section \<open>The flush\<close>

lemma retrieve_loop_none:
  "\<forall>e \<in> set es. \<not> clock_ready ni (ipv4_numeric (fst e)) \<Longrightarrow> retrieve_loop ev idx es ni = ni"
  by (induction es arbitrary: idx) auto

lemma retrieve_loop_first:
  assumes "\<forall>x \<in> set pre. \<not> clock_ready ni (ipv4_numeric (fst x))"
    and "clock_ready ni (ipv4_numeric (fst e))"
  shows "retrieve_loop ev idx (pre @ e # post) ni =
           (send_datagram ev (snd e) (fst e) ni)
             \<lparr>dgram_table := erase_at (idx + length pre) (dgram_table (send_datagram ev (snd e) (fst e) ni))\<rparr>"
  using assms
  by (induction pre arbitrary: idx) (auto simp: Let_def)

lemma erase_at_append: "erase_at (length pre) (pre @ e # post) = pre @ post"
  by (simp add: erase_at_def)

lemma retrieve_loop_cases:
  "retrieve_loop ev idx es ni = ni
   \<or> (\<exists>e. clock_ready ni (ipv4_numeric (fst e))
          \<and> (\<exists>q. retrieve_loop ev idx es ni = (send_datagram ev (snd e) (fst e) ni)\<lparr>dgram_table := q\<rparr>))"
  by (induction es arbitrary: idx) (auto simp: Let_def)

lemma retrieve_datagram_maps:
  "arp_table (retrieve_datagram ev ni) = arp_table ni"
  "arp_clock (retrieve_datagram ev ni) = arp_clock ni"
  "ethernet_address (retrieve_datagram ev ni) = ethernet_address ni"
  "ip_address (retrieve_datagram ev ni) = ip_address ni"
  using retrieve_loop_cases [of ev 0 "dgram_table ni" ni]
  by (auto simp: retrieve_datagram_def send_datagram_ready)

lemma retrieve_datagram_frames:
  "\<exists>rest. outgoing_frames (retrieve_datagram ev ni) = outgoing_frames ni @ rest
          \<and> length rest \<le> 1
          \<and> (\<forall>f \<in> set rest. f = empty_frame \<or> type (header f) = TYPE_IPv4)"
proof -
  from retrieve_loop_cases [of ev 0 "dgram_table ni" ni]
  consider "retrieve_datagram ev ni = ni"
    | e q where "clock_ready ni (ipv4_numeric (fst e))"
        "retrieve_datagram ev ni = (send_datagram ev (snd e) (fst e) ni)\<lparr>dgram_table := q\<rparr>"
    by (auto simp: retrieve_datagram_def)
  then show ?thesis
  proof cases
    case 1
    then show ?thesis by simp
  next
    case 2
    from send_datagram_ready_frames [OF 2(1), of ev "snd e"]
    obtain f where "outgoing_frames (send_datagram ev (snd e) (fst e) ni) = outgoing_frames ni @ [f]"
      "f = empty_frame \<or> type (header f) = TYPE_IPv4" by blast
    with 2(2) show ?thesis by (intro exI [of _ "[f]"]) simp
  qed
qed

lemma retrieve_no_ready:
  "\<forall>a. \<not> clock_ready ni a \<Longrightarrow> retrieve_datagram ev ni = ni"
  by (simp add: retrieve_datagram_def retrieve_loop_none)

lemma retrieve_datagram_split:
  "retrieve_datagram ev ni = ni
   \<or> (\<exists>pre e post. dgram_table ni = pre @ e # post
         \<and> clock_ready ni (ipv4_numeric (fst e))
         \<and> retrieve_datagram ev ni
             = (send_datagram ev (snd e) (fst e) ni)\<lparr>dgram_table := pre @ post\<rparr>)"
proof (cases "\<exists>e \<in> set (dgram_table ni). clock_ready ni (ipv4_numeric (fst e))")
  case True
  from split_list_first_prop [OF True]
  obtain pre e post where s: "dgram_table ni = pre @ e # post"
    "clock_ready ni (ipv4_numeric (fst e))"
    "\<forall>x \<in> set pre. \<not> clock_ready ni (ipv4_numeric (fst x))" by blast
  have "retrieve_datagram ev ni = (send_datagram ev (snd e) (fst e) ni)\<lparr>dgram_table := pre @ post\<rparr>"
    using s by (simp add: retrieve_datagram_def retrieve_loop_first send_datagram_ready
        erase_at_append)
  with s(1,2) show ?thesis by blast
next
  case False
  then show ?thesis by (simp add: retrieve_datagram_def retrieve_loop_none)
qed

lemma retrieve_keeps_pending_entries:
  assumes "\<not> clock_ready ni k"
  shows "filter (\<lambda>e. ipv4_numeric (fst e) = k) (dgram_table (retrieve_datagram ev ni))
           = filter (\<lambda>e. ipv4_numeric (fst e) = k) (dgram_table ni)"
  using retrieve_datagram_split [of ev ni] assms by auto

lemma retrieve_adds_no_arp:
  "filter (\<lambda>f. type (header f) = TYPE_ARP) (outgoing_frames (retrieve_datagram ev ni))
           = filter (\<lambda>f. type (header f) = TYPE_ARP) (outgoing_frames ni)"
proof -
  from retrieve_datagram_frames [of ev ni]
  obtain rest where r: "outgoing_frames (retrieve_datagram ev ni) = outgoing_frames ni @ rest"
    "\<forall>f \<in> set rest. f = empty_frame \<or> type (header f) = TYPE_IPv4" by blast
  have "type (header f) \<noteq> TYPE_ARP" if "f \<in> set rest" for f
    using r(2) that by (auto simp: empty_frame_def TYPE_ARP_def TYPE_IPv4_def)
  then have "filter (\<lambda>f. type (header f) = TYPE_ARP) rest = []"
    by (simp add: filter_empty_conv)
  with r(1) show ?thesis by simp
qed

text \<open>
  C9. One call of \<open>retrieve_datagram\<close>: when no deferred entry has a ready next hop
  (an age record that is present and non-negative) the interface is unchanged;
  otherwise the oldest ready entry, and only that one, is taken out of the queue and
  handed to \<open>send_datagram\<close>, which leaves the queue alone, and the scan stops.
\<close>

theorem C9_flush_one_entry:
  "((\<forall>e \<in> set (dgram_table ni). \<not> clock_ready ni (ipv4_numeric (fst e)))
      \<longrightarrow> retrieve_datagram ev ni = ni)
   \<and> (\<forall>pre e post.
        dgram_table ni = pre @ e # post
        \<and> (\<forall>x \<in> set pre. \<not> clock_ready ni (ipv4_numeric (fst x)))
        \<and> clock_ready ni (ipv4_numeric (fst e))
        \<longrightarrow> retrieve_datagram ev ni =
              (send_datagram ev (snd e) (fst e) ni)\<lparr>dgram_table := pre @ post\<rparr>
            \<and> dgram_table (send_datagram ev (snd e) (fst e) ni) = dgram_table ni)"
proof (intro conjI allI impI)
  assume "\<forall>e \<in> set (dgram_table ni). \<not> clock_ready ni (ipv4_numeric (fst e))"
  then show "retrieve_datagram ev ni = ni"
    by (simp add: retrieve_datagram_def retrieve_loop_none)
next
  fix pre e post
  assume h: "dgram_table ni = pre @ e # post
        \<and> (\<forall>x \<in> set pre. \<not> clock_ready ni (ipv4_numeric (fst x)))
        \<and> clock_ready ni (ipv4_numeric (fst e))"
  then show "dgram_table (send_datagram ev (snd e) (fst e) ni) = dgram_table ni"
    by (simp add: send_datagram_ready)
  with h show "retrieve_datagram ev ni =
              (send_datagram ev (snd e) (fst e) ni)\<lparr>dgram_table := pre @ post\<rparr>"
    by (simp add: retrieve_datagram_def retrieve_loop_first erase_at_append)
qed

theorem C9_witness:
  "dgram_table (run wire_env [Send dgram3 ipC, Send dgram1 ipB, Send dgram2 ipB,
                              Recv reply_from_B] ifA)
     = [(ipC, dgram3)] @ (ipB, dgram2) # []
   \<and> \<not> clock_ready (run wire_env [Send dgram3 ipC, Send dgram1 ipB, Send dgram2 ipB,
                                  Recv reply_from_B] ifA) (ipv4_numeric ipC)
   \<and> clock_ready (run wire_env [Send dgram3 ipC, Send dgram1 ipB, Send dgram2 ipB,
                                Recv reply_from_B] ifA) (ipv4_numeric ipB)
   \<and> dgram_table (retrieve_datagram wire_env
        (run wire_env [Send dgram3 ipC, Send dgram1 ipB, Send dgram2 ipB,
                       Recv reply_from_B] ifA))
     = [(ipC, dgram3)]
   \<and> retrieve_datagram wire_env (run wire_env [Send dgram3 ipC] ifA)
     = run wire_env [Send dgram3 ipC] ifA"
proof -
  let ?s = "run wire_env [Send dgram3 ipC, Send dgram1 ipB, Send dgram2 ipB,
                          Recv reply_from_B] ifA"
  have q: "dgram_table ?s = [(ipC, dgram3)] @ (ipB, dgram2) # []"
    by (simp add: model_defs wire_defs upt_rec)
  have nc: "\<not> clock_ready ?s (ipv4_numeric ipC)"
    by (simp add: model_defs wire_defs upt_rec)
  have rb: "clock_ready ?s (ipv4_numeric ipB)"
    by (simp add: model_defs wire_defs upt_rec)
  from C9_flush_one_entry [of ?s wire_env, THEN conjunct2, rule_format,
      of "[(ipC, dgram3)]" "(ipB, dgram2)" "[]"] q nc rb
  have "dgram_table (retrieve_datagram wire_env ?s) = [(ipC, dgram3)]"
    by simp
  moreover
  have "\<forall>e \<in> set (dgram_table (run wire_env [Send dgram3 ipC] ifA)).
          \<not> clock_ready (run wire_env [Send dgram3 ipC] ifA) (ipv4_numeric (fst e))"
    by (simp add: model_defs wire_defs)
  with C9_flush_one_entry [of "run wire_env [Send dgram3 ipC] ifA" wire_env, THEN conjunct1]
  have "retrieve_datagram wire_env (run wire_env [Send dgram3 ipC] ifA)
        = run wire_env [Send dgram3 ipC] ifA"
    by blast
  ultimately show ?thesis using q nc rb by blast
qed

section \<open>The inbound path\<close>

lemma recv_frame_failed_arp_parse:
  assumes "type (header frame) = TYPE_ARP"
    and "parse_arp ev (payload frame) = (False, m)"
  shows "recv_frame ev frame ni =
           (None, retrieve_datagram ev
              (if target_ip_address m = ipv4_numeric (ip_address ni) \<and> opcode m = OPCODE_REQUEST
               then push_frame
                      \<lparr>header = \<lparr>dst = sender_ethernet_address m, src = ethernet_address ni,
                                  type = TYPE_ARP\<rparr>,
                       payload = serialize_arp ev (arp_reply ni m)\<rparr> ni
               else ni))"
  using assms
  by (simp add: recv_frame_def recv_arp_def arp_reply_def TYPE_ARP_def TYPE_IPv4_def)

lemma eth_recv: "ethernet_address (snd (recv_frame ev frame ni)) = ethernet_address ni"
  by (auto simp: recv_frame_def recv_arp_def retrieve_datagram_maps push_frame_def Let_def
      split: option.splits prod.splits)

lemma eth_maybe_send: "ethernet_address (snd (maybe_send ni)) = ethernet_address ni"
  by (simp add: maybe_send_def split: list.splits)

text \<open>
  C5. An ARP frame that parses as a request for this interface's own address: no
  datagram is returned and exactly one reply is pushed, addressed to the requester's
  hardware address, with the requester as target and this interface as sender. The
  flush that follows adds at most one more frame, and never an ARP frame.
\<close>

theorem C5_request_gets_one_reply:
  assumes "type (header frame) = TYPE_ARP"
    and "parse_arp ev (payload frame) = (True, m)"
    and "opcode m = OPCODE_REQUEST"
    and "target_ip_address m = ipv4_numeric (ip_address ni)"
  shows "\<exists>rest.
           fst (recv_frame ev frame ni) = None
         \<and> outgoing_frames (snd (recv_frame ev frame ni))
             = outgoing_frames ni
               @ \<lparr>header = \<lparr>dst = sender_ethernet_address m, src = ethernet_address ni,
                             type = TYPE_ARP\<rparr>,
                  payload = serialize_arp ev
                    \<lparr>opcode = OPCODE_REPLY,
                     sender_ethernet_address = ethernet_address ni,
                     sender_ip_address = ipv4_numeric (ip_address ni),
                     target_ethernet_address = sender_ethernet_address m,
                     target_ip_address = sender_ip_address m\<rparr>\<rparr>
               # rest
         \<and> length rest \<le> 1
         \<and> (\<forall>f \<in> set rest. type (header f) \<noteq> TYPE_ARP)"
proof -
  let ?ni1 = "recv_arp ev frame ni"
  have nt: "TYPE_ARP \<noteq> TYPE_IPv4" by (simp add: TYPE_ARP_def TYPE_IPv4_def)
  have r: "recv_frame ev frame ni = (None, retrieve_datagram ev ?ni1)"
    using assms(1) nt by (simp add: recv_frame_def)
  have m': "arp_reply ni m = \<lparr>opcode = OPCODE_REPLY,
                     sender_ethernet_address = ethernet_address ni,
                     sender_ip_address = ipv4_numeric (ip_address ni),
                     target_ethernet_address = sender_ethernet_address m,
                     target_ip_address = sender_ip_address m\<rparr>"
    by (simp add: arp_reply_def)
  have f1: "outgoing_frames ?ni1 = outgoing_frames ni
               @ [\<lparr>header = \<lparr>dst = sender_ethernet_address m, src = ethernet_address ni,
                             type = TYPE_ARP\<rparr>,
                  payload = serialize_arp ev (arp_reply ni m)\<rparr>]"
    using assms(2-4) by (simp add: recv_arp_def push_frame_def arp_reply_def)
  from retrieve_datagram_frames [of ev ?ni1]
  obtain rest where rest: "outgoing_frames (retrieve_datagram ev ?ni1) = outgoing_frames ?ni1 @ rest"
    "length rest \<le> 1" "\<forall>f \<in> set rest. f = empty_frame \<or> type (header f) = TYPE_IPv4"
    by blast
  have "\<forall>f \<in> set rest. type (header f) \<noteq> TYPE_ARP"
    using rest(3) by (auto simp: empty_frame_def TYPE_ARP_def TYPE_IPv4_def)
  with r f1 rest(1,2) m' show ?thesis
    by (intro exI [of _ rest]) simp
qed

theorem C5_witness:
  "type (header request_from_B) = TYPE_ARP
   \<and> parse_arp wire_env (payload request_from_B)
       = (True, \<lparr>opcode = OPCODE_REQUEST, sender_ethernet_address = macB,
                 sender_ip_address = 0x02020202, target_ethernet_address = 0,
                 target_ip_address = 0x01010101\<rparr>)
   \<and> ipv4_numeric (ip_address ifA) = 0x01010101
   \<and> recv_frame wire_env request_from_B ifA
       = (None, ifA\<lparr>arp_table := [(0x02020202, macB)], arp_clock := [(0x02020202, 0)],
                    outgoing_frames :=
                      [\<lparr>header = \<lparr>dst = macB, src = macA, type = TYPE_ARP\<rparr>,
                        payload = [0, 1, 8, 0, 6, 4, 0, 2, 170, 170, 170, 170, 170, 170,
                                   1, 1, 1, 1, 187, 187, 187, 187, 187, 187, 2, 2, 2, 2]\<rparr>]\<rparr>)"
proof -
  have h1: "type (header request_from_B) = TYPE_ARP"
    by (simp add: wire_defs)
  have h2: "parse_arp wire_env (payload request_from_B)
       = (True, \<lparr>opcode = OPCODE_REQUEST, sender_ethernet_address = macB,
                 sender_ip_address = 0x02020202, target_ethernet_address = 0,
                 target_ip_address = 0x01010101\<rparr>)"
    by (simp add: model_defs wire_defs upt_rec)
  have h3: "ipv4_numeric (ip_address ifA) = 0x01010101"
    by (simp add: model_defs wire_defs)
  from C5_request_gets_one_reply [OF h1 h2, of ifA] h1 h2 h3
  show ?thesis
    by (simp add: model_defs wire_defs upt_rec)
qed

section \<open>Ticks and a pending address\<close>

lemma tick_loop_rest:
  "outgoing_frames (tick_loop ms ks ni) = outgoing_frames ni
   \<and> dgram_table (tick_loop ms ks ni) = dgram_table ni
   \<and> ethernet_address (tick_loop ms ks ni) = ethernet_address ni
   \<and> ip_address (tick_loop ms ks ni) = ip_address ni"
  by (induction ks arbitrary: ni) (auto simp: Let_def)

lemma clock_at_update:
  "clock_at (ni\<lparr>arp_clock := AList.update k c (arp_clock ni)\<rparr>) k = c"
  by (simp add: clock_at_def update_conv')

lemma eth_tick: "ethernet_address (tick ev ms ni) = ethernet_address ni"
  by (simp add: tick_def retrieve_datagram_maps tick_loop_rest)

lemma ip_tick: "ip_address (tick ev ms ni) = ip_address ni"
  by (simp add: tick_def retrieve_datagram_maps tick_loop_rest)

lemma addr_ticks:
  "ethernet_address (ticks ev mss ni) = ethernet_address ni
   \<and> ip_address (ticks ev mss ni) = ip_address ni"
  unfolding ticks_def by (induction mss arbitrary: ni) (simp_all add: eth_tick ip_tick)

lemma eth_exec: "ethernet_address (exec ev c ni) = ethernet_address ni"
  by (cases c) (simp_all add: eth_send eth_recv eth_tick eth_maybe_send)

lemma eth_run: "ethernet_address (run ev cs ni) = ethernet_address ni"
  unfolding run_def by (induction cs arbitrary: ni) (simp_all add: eth_exec)

lemma tick_loop_pending_key:
  "map_of (arp_table ni) k = None \<Longrightarrow> map_of (arp_clock ni) k = Some c \<Longrightarrow> c < 0
   \<Longrightarrow> - 5000 \<le> c - uint ms
   \<Longrightarrow> map_of (arp_table (tick_loop ms ks ni)) k = None
       \<and> (\<exists>c'. map_of (arp_clock (tick_loop ms ks ni)) k = Some c' \<and> c - uint ms \<le> c' \<and> c' < 0)"
proof (induction ks arbitrary: ni)
  case Nil
  then show ?case using uint_ge_0 [of ms] by simp
next
  case (Cons j ks)
  show ?case
  proof (cases "j = k")
    case True
    have at: "clock_at ni k = c" using Cons.prems(2) by (simp add: clock_at_def)
    have lo: "- 5000 \<le> c" using Cons.prems(4) uint_ge_0 [of ms] by linarith
    have "uint ms \<le> c + 5000" using Cons.prems(4) by linarith
    with Cons.prems(3) have sm: "small_tick ms" by (simp add: small_tick_def)
    have sub: "clock_sub c ms = c - uint ms" by (rule clock_sub_small [OF sm lo Cons.prems(3)])
    have neg: "c - uint ms < 0" using Cons.prems(3) uint_ge_0 [of ms] by linarith
    have "tick_loop ms (j # ks) ni = ni\<lparr>arp_clock := AList.update k (c - uint ms) (arp_clock ni)\<rparr>"
      using True at sub Cons.prems(3,4) by (simp add: Let_def clock_at_update)
    with neg Cons.prems(1) show ?thesis by (simp add: update_conv')
  next
    case False
    show ?thesis
    proof (cases "0 \<le> clock_at ni j")
      case res: True
      let ?ni1 = "ni\<lparr>arp_clock := AList.update j (clock_add (clock_at ni j) ms) (arp_clock ni)\<rparr>"
      have k1: "map_of (arp_table ?ni1) k = None" "map_of (arp_clock ?ni1) k = Some c"
        using False Cons.prems(1,2) by (simp_all add: update_conv')
      show ?thesis
      proof (cases "30000 \<le> clock_at ?ni1 j")
        case True
        with res have "tick_loop ms (j # ks) ni =
            ?ni1\<lparr>arp_table := AList.delete j (arp_table ?ni1),
                  arp_clock := AList.delete j (arp_clock ?ni1)\<rparr>"
          by (simp add: Let_def)
        with k1 False Cons.prems(3) uint_ge_0 [of ms] show ?thesis
          by (simp add: delete_conv')
      next
        case False
        with res have "tick_loop ms (j # ks) ni = tick_loop ms ks ?ni1"
          by (simp add: Let_def)
        with Cons.IH [OF k1 Cons.prems(3,4)] show ?thesis by simp
      qed
    next
      case pen: False
      let ?ni1 = "ni\<lparr>arp_clock := AList.update j (clock_sub (clock_at ni j) ms) (arp_clock ni)\<rparr>"
      have k1: "map_of (arp_table ?ni1) k = None" "map_of (arp_clock ?ni1) k = Some c"
        using False Cons.prems(1,2) by (simp_all add: update_conv')
      have "tick_loop ms (j # ks) ni = ?ni1
          \<or> tick_loop ms (j # ks) ni = ?ni1\<lparr>arp_clock := AList.delete j (arp_clock ?ni1)\<rparr>"
        using pen by (simp add: Let_def)
      with k1 False Cons.prems(3) uint_ge_0 [of ms] show ?thesis
        by (auto simp: delete_conv')
    qed
  qed
qed

lemma tick_awaiting:
  assumes "awaiting ni k lo" "- 5000 \<le> lo - uint ms"
  shows "awaiting (tick ev ms ni) k (lo - uint ms)"
    and "filter (\<lambda>e. ipv4_numeric (fst e) = k) (dgram_table (tick ev ms ni))
           = filter (\<lambda>e. ipv4_numeric (fst e) = k) (dgram_table ni)"
    and "filter (\<lambda>f. type (header f) = TYPE_ARP) (outgoing_frames (tick ev ms ni))
           = filter (\<lambda>f. type (header f) = TYPE_ARP) (outgoing_frames ni)"
proof -
  from assms(1) obtain c where c: "map_of (arp_table ni) k = None"
    "map_of (arp_clock ni) k = Some c" "lo \<le> c" "c < 0"
    by (auto simp: awaiting_def)
  let ?ks = "clock_order ev (arp_clock ni)"
  from c(3) assms(2) have b: "- 5000 \<le> c - uint ms" by linarith
  from tick_loop_pending_key [OF c(1,2,4) b, of ?ks]
  obtain c' where c': "map_of (arp_table (tick_loop ms ?ks ni)) k = None"
    "map_of (arp_clock (tick_loop ms ?ks ni)) k = Some c'" "c - uint ms \<le> c'" "c' < 0"
    by blast
  have nr: "\<not> clock_ready (tick_loop ms ?ks ni) k"
    using c'(2,4) by (simp add: clock_ready_def)
  have ne: "arp_clock ni \<noteq> []" using c(2) by auto
  then have t: "tick ev ms ni = retrieve_datagram ev (tick_loop ms ?ks ni)"
    by (simp add: tick_def)
  show "awaiting (tick ev ms ni) k (lo - uint ms)"
    unfolding t awaiting_def retrieve_datagram_maps using c' c(3) by auto
  show "filter (\<lambda>e. ipv4_numeric (fst e) = k) (dgram_table (tick ev ms ni))
           = filter (\<lambda>e. ipv4_numeric (fst e) = k) (dgram_table ni)"
    unfolding t retrieve_keeps_pending_entries [OF nr] by (simp add: tick_loop_rest)
  show "filter (\<lambda>f. type (header f) = TYPE_ARP) (outgoing_frames (tick ev ms ni))
           = filter (\<lambda>f. type (header f) = TYPE_ARP) (outgoing_frames ni)"
    unfolding t retrieve_adds_no_arp by (simp add: tick_loop_rest)
qed

lemma ticks_awaiting:
  "awaiting ni k lo \<Longrightarrow> - 5000 \<le> lo - sum_list (map uint mss)
   \<Longrightarrow> awaiting (ticks ev mss ni) k (lo - sum_list (map uint mss))
       \<and> filter (\<lambda>e. ipv4_numeric (fst e) = k) (dgram_table (ticks ev mss ni))
           = filter (\<lambda>e. ipv4_numeric (fst e) = k) (dgram_table ni)
       \<and> filter (\<lambda>f. type (header f) = TYPE_ARP) (outgoing_frames (ticks ev mss ni))
           = filter (\<lambda>f. type (header f) = TYPE_ARP) (outgoing_frames ni)"
proof (induction mss arbitrary: ni lo)
  case Nil
  then show ?case by (simp add: ticks_def)
next
  case (Cons ms mss)
  have nn: "0 \<le> sum_list (map uint mss)" by (rule sum_uint_nonneg)
  from Cons.prems(2) nn have b: "- 5000 \<le> lo - uint ms" by simp
  note t = tick_awaiting [OF Cons.prems(1) b, of ev]
  have b2: "- 5000 \<le> lo - uint ms - sum_list (map uint mss)" using Cons.prems(2) by simp
  have "ticks ev (ms # mss) ni = ticks ev mss (tick ev ms ni)" by (simp add: ticks_def)
  with Cons.IH [OF t(1) b2] t(2,3) show ?case by (simp add: algebra_simps)
qed

text \<open>
  C4. From a next hop that is in neither map, a \<open>send_datagram\<close> call pushes the one
  broadcast ARP request and defers the datagram. After any ticks that add up to less
  than 5000 ms (none at all included), a second \<open>send_datagram\<close> to that next hop
  leaves the frame queue as it finds it and defers its datagram: over both calls and
  the ticks between them one ARP frame has been added, the request, and the deferred
  entries for the next hop have grown by exactly the two datagrams.
\<close>

theorem C4_two_sends_one_request:
  assumes "Unknown ni (ipv4_numeric next_hop)"
    and "sum_list (map uint mss) < 5000"
    and "s1 = send_datagram ev d1 next_hop ni"
    and "s2 = ticks ev mss s1"
    and "s3 = send_datagram ev d2 next_hop s2"
  shows "outgoing_frames s1 = outgoing_frames ni @ [request_frame ev ni (ipv4_numeric next_hop)]
       \<and> dgram_table s1 = dgram_table ni @ [(next_hop, d1)]
       \<and> outgoing_frames s3 = outgoing_frames s2
       \<and> dgram_table s3 = dgram_table s2 @ [(next_hop, d2)]
       \<and> filter (\<lambda>f. type (header f) = TYPE_ARP) (outgoing_frames s3)
           = filter (\<lambda>f. type (header f) = TYPE_ARP) (outgoing_frames ni)
             @ [request_frame ev ni (ipv4_numeric next_hop)]
       \<and> filter (\<lambda>e. ipv4_numeric (fst e) = ipv4_numeric next_hop) (dgram_table s3)
           = filter (\<lambda>e. ipv4_numeric (fst e) = ipv4_numeric next_hop) (dgram_table ni)
             @ [(next_hop, d1), (next_hop, d2)]
       \<and> dgram_table (send_datagram ev d2 next_hop s1)
           = dgram_table ni @ [(next_hop, d1), (next_hop, d2)]
       \<and> outgoing_frames (send_datagram ev d2 next_hop s1) = outgoing_frames s1"
proof -
  let ?k = "ipv4_numeric next_hop"
  let ?sum = "sum_list (map uint mss)"
  have s1: "s1 = ni\<lparr>dgram_table := dgram_table ni @ [(next_hop, d1)],
              arp_clock := AList.update ?k (- 1) (arp_clock ni),
              outgoing_frames := outgoing_frames ni @ [request_frame ev ni ?k]\<rparr>"
    unfolding assms(3) by (rule send_unknown [OF assms(1)])
  have a1: "awaiting s1 ?k (- 1)"
    using assms(1) by (simp add: awaiting_def s1 Unknown_def update_conv')
  have b: "- 5000 \<le> - 1 - ?sum" using assms(2) by simp
  from ticks_awaiting [OF a1 b, of ev]
  have a2: "awaiting s2 ?k (- 1 - ?sum)"
    and q2: "filter (\<lambda>e. ipv4_numeric (fst e) = ?k) (dgram_table s2)
           = filter (\<lambda>e. ipv4_numeric (fst e) = ?k) (dgram_table s1)"
    and f2: "filter (\<lambda>f. type (header f) = TYPE_ARP) (outgoing_frames s2)
           = filter (\<lambda>f. type (header f) = TYPE_ARP) (outgoing_frames s1)"
    by (simp_all add: assms(4))
  from a2 obtain c where c: "map_of (arp_table s2) ?k = None" "map_of (arp_clock s2) ?k = Some c"
    "c < 0" by (auto simp: awaiting_def)
  have s3: "s3 = s2\<lparr>dgram_table := dgram_table s2 @ [(next_hop, d2)]\<rparr>"
    unfolding assms(5) by (rule send_pending [OF c])
  from a1 obtain c1 where c1: "map_of (arp_table s1) ?k = None"
    "map_of (arp_clock s1) ?k = Some c1" "c1 < 0" by (auto simp: awaiting_def)
  have s3': "send_datagram ev d2 next_hop s1 = s1\<lparr>dgram_table := dgram_table s1 @ [(next_hop, d2)]\<rparr>"
    by (rule send_pending [OF c1])
  have ra: "type (header (request_frame ev ni ?k)) = TYPE_ARP"
    by (simp add: request_frame_def)
  from s1 s3 s3' q2 f2 ra show ?thesis by simp
qed

theorem C4_witness:
  "Unknown ifA (ipv4_numeric ipB)
   \<and> sum_list (map uint [1000, 3999 :: 64 word]) < 5000
   \<and> outgoing_frames (send_datagram wire_env dgram2 ipB
        (ticks wire_env [1000, 3999] (send_datagram wire_env dgram1 ipB ifA)))
       = [\<lparr>header = \<lparr>dst = 0xFFFFFFFFFFFF, src = 0xAAAAAAAAAAAA, type = 0x806\<rparr>,
           payload = [0, 1, 8, 0, 6, 4, 0, 1, 170, 170, 170, 170, 170, 170, 1, 1, 1, 1,
                      0, 0, 0, 0, 0, 0, 2, 2, 2, 2]\<rparr>]
   \<and> dgram_table (send_datagram wire_env dgram2 ipB
        (ticks wire_env [1000, 3999] (send_datagram wire_env dgram1 ipB ifA)))
       = [(ipB, dgram1), (ipB, dgram2)]
   \<and> dgram_table (send_datagram wire_env dgram2 ipB (send_datagram wire_env dgram1 ipB ifA))
       = [(ipB, dgram1), (ipB, dgram2)]"
proof -
  have u: "Unknown ifA (ipv4_numeric ipB)"
    by (simp add: Unknown_def model_defs wire_defs)
  have h: "sum_list (map uint [1000, 3999 :: 64 word]) < 5000" by simp
  from C4_two_sends_one_request [OF u h refl refl refl, of wire_env dgram1 dgram2] u h
  show ?thesis
    by (simp add: model_defs wire_defs upt_rec)
qed

section \<open>Reachable states keep the maps in lockstep\<close>

lemma lockstep_empty: "lockstep Map.empty Map.empty"
  by (simp add: lockstep_def)

lemma lockstep_range: "lockstep T C \<Longrightarrow> C k = Some c \<Longrightarrow> - 5000 \<le> c \<and> c < 30000"
  unfolding lockstep_def by blast

lemma lockstep_cached: "lockstep T C \<Longrightarrow> C k = Some c \<Longrightarrow> (T k \<noteq> None) = (0 \<le> c)"
  unfolding lockstep_def by blast

lemma lockstep_no_record: "lockstep T C \<Longrightarrow> C k = None \<Longrightarrow> T k = None"
  unfolding lockstep_def by blast

lemma lockstep_request:
  "lockstep T C \<Longrightarrow> T k = None \<Longrightarrow> lockstep T (C(k \<mapsto> - 1))"
  unfolding lockstep_def by simp

lemma lockstep_learn: "lockstep T C \<Longrightarrow> lockstep (T(k \<mapsto> mac)) (C(k \<mapsto> 0))"
  unfolding lockstep_def by simp

lemma lockstep_erase: "lockstep T C \<Longrightarrow> lockstep (T(k := None)) (C(k := None))"
  unfolding lockstep_def by simp

lemma lockstep_clear:
  assumes "lockstep T C" "C k = Some c" "c < 0"
  shows "lockstep T (C(k := None))"
proof -
  from lockstep_cached [OF assms(1,2)] assms(3) have "T k = None" by simp
  with assms(1) show ?thesis unfolding lockstep_def by simp
qed

lemma lockstep_age:
  assumes "lockstep T C" "C k = Some c" "0 \<le> c" "0 \<le> c'" "c' < 30000"
  shows "lockstep T (C(k \<mapsto> c'))"
proof -
  from lockstep_cached [OF assms(1,2)] assms(3) have "T k \<noteq> None" by simp
  with assms(1,4,5) show ?thesis unfolding lockstep_def by simp
qed

lemma lockstep_cool:
  assumes "lockstep T C" "C k = Some c" "c < 0" "- 5000 \<le> c'" "c' < 0"
  shows "lockstep T (C(k \<mapsto> c'))"
proof -
  from lockstep_cached [OF assms(1,2)] assms(3) have "T k = None" by simp
  with assms(1,4,5) show ?thesis unfolding lockstep_def by simp
qed

lemma consistent_new: "consistent (new_interface eth ip)"
  by (simp add: consistent_def new_interface_def lockstep_empty)

lemma consistent_send:
  assumes "consistent ni"
  shows "consistent (send_datagram ev d nh ni)"
proof -
  let ?k = "ipv4_numeric nh"
  from assms have L: "lockstep (map_of (arp_table ni)) (map_of (arp_clock ni))"
    and D: "distinct (map fst (arp_clock ni))"
    and F: "\<forall>f \<in> set (outgoing_frames ni). populated (ethernet_address ni) f"
    by (simp_all add: consistent_def)
  show ?thesis
  proof (cases "map_of (arp_table ni) ?k")
    case (Some mac)
    then have "send_datagram ev d nh ni =
        push_frame \<lparr>header = \<lparr>dst = mac, src = ethernet_address ni, type = TYPE_IPv4\<rparr>,
                    payload = serialize_dgram ev d\<rparr> ni"
      by (simp add: send_datagram_def Let_def)
    with L D F show ?thesis
      by (simp add: consistent_def push_frame_def populated_def)
  next
    case None
    show ?thesis
    proof (cases "map_of (arp_clock ni) ?k")
      case n2: None
      then have "send_datagram ev d nh ni =
        push_frame (request_frame ev ni ?k)
          (ni\<lparr>dgram_table := dgram_table ni @ [(nh, d)],
              arp_clock := AList.update ?k (- 1) (arp_clock ni)\<rparr>)"
        using None by (simp add: send_datagram_def request_frame_def Let_def)
      with L D F None show ?thesis
        by (simp add: consistent_def push_frame_def populated_def request_frame_def
            update_conv' distinct_update lockstep_request)
    next
      case (Some c)
      with None L have "c < 0"
        using lockstep_cached [OF L Some] by simp
      with None Some have "send_datagram ev d nh ni = ni\<lparr>dgram_table := dgram_table ni @ [(nh, d)]\<rparr>"
        by (simp add: send_datagram_def Let_def)
      with L D F show ?thesis
        by (simp add: consistent_def)
    qed
  qed
qed

lemma consistent_queue: "consistent (ni\<lparr>dgram_table := q\<rparr>) = consistent ni"
  by (simp add: consistent_def)

lemma consistent_retrieve:
  assumes "consistent ni"
  shows "consistent (retrieve_datagram ev ni)"
  using retrieve_loop_cases [of ev 0 "dgram_table ni" ni] consistent_send [OF assms] assms
  by (auto simp: retrieve_datagram_def consistent_queue)

lemma consistent_recv_arp:
  assumes "consistent ni"
  shows "consistent (recv_arp ev frame ni)"
proof -
  obtain ok m where p: "parse_arp ev (payload frame) = (ok, m)"
    by (cases "parse_arp ev (payload frame)")
  let ?ni1 = "if ok then
                   ni\<lparr>arp_table := AList.update (sender_ip_address m)
                                     (sender_ethernet_address m) (arp_table ni),
                      arp_clock := AList.update (sender_ip_address m) 0 (arp_clock ni)\<rparr>
                 else ni"
  from assms have c1: "consistent ?ni1"
    by (simp add: consistent_def update_conv' distinct_update lockstep_learn)
  have e1: "ethernet_address ?ni1 = ethernet_address ni" by simp
  have "recv_arp ev frame ni = ?ni1
      \<or> (\<exists>g. populated (ethernet_address ni) g \<and> recv_arp ev frame ni = push_frame g ?ni1)"
  proof (cases "target_ip_address m = ipv4_numeric (ip_address ni) \<and> opcode m = OPCODE_REQUEST")
    case True
    let ?g = "\<lparr>header = \<lparr>dst = target_ethernet_address (arp_reply ni m),
                            src = ethernet_address ni, type = TYPE_ARP\<rparr>,
                 payload = serialize_arp ev (arp_reply ni m)\<rparr>"
    have "populated (ethernet_address ni) ?g" by (simp add: populated_def)
    moreover from True p have "recv_arp ev frame ni = push_frame ?g ?ni1"
      by (simp add: recv_arp_def)
    ultimately show ?thesis by blast
  next
    case False
    with p have "recv_arp ev frame ni = ?ni1" by (auto simp: recv_arp_def)
    then show ?thesis by simp
  qed
  then show ?thesis
  proof
    assume "recv_arp ev frame ni = ?ni1"
    with c1 show ?thesis by simp
  next
    assume "\<exists>g. populated (ethernet_address ni) g \<and> recv_arp ev frame ni = push_frame g ?ni1"
    then obtain g where g: "populated (ethernet_address ni) g"
      "recv_arp ev frame ni = push_frame g ?ni1" by blast
    from c1 g(1) e1 have "consistent (push_frame g ?ni1)"
      unfolding consistent_def push_frame_def by simp
    with g(2) show ?thesis by simp
  qed
qed

lemma consistent_recv:
  assumes "consistent ni"
  shows "consistent (snd (recv_frame ev frame ni))"
  using assms consistent_retrieve [OF consistent_recv_arp [OF assms]] consistent_retrieve [OF assms]
  by (auto simp: recv_frame_def split: option.splits)

lemma consistent_maybe_send:
  assumes "consistent ni"
  shows "consistent (snd (maybe_send ni))"
  using assms
  by (auto simp: maybe_send_def consistent_def split: list.splits)

lemma consistent_tick_loop:
  assumes "small_tick ms"
  shows "consistent ni \<Longrightarrow> set ks \<subseteq> fst ` set (arp_clock ni)
         \<Longrightarrow> consistent (tick_loop ms ks ni)"
proof (induction ks arbitrary: ni)
  case Nil
  then show ?case by simp
next
  case (Cons k ks)
  let ?C = "map_of (arp_clock ni)" and ?T = "map_of (arp_table ni)"
  from Cons.prems(1) have L: "lockstep ?T ?C"
    and D: "distinct (map fst (arp_clock ni))"
    and F: "\<forall>f \<in> set (outgoing_frames ni). populated (ethernet_address ni) f"
    by (simp_all add: consistent_def)
  from Cons.prems(2) have "k \<in> fst ` set (arp_clock ni)" by simp
  then obtain c where c: "?C k = Some c"
    by (metis map_of_eq_None_iff not_None_eq)
  then have at: "clock_at ni k = c" by (simp add: clock_at_def)
  from lockstep_range [OF L c] have rng: "- 5000 \<le> c" "c < 30000" by simp_all
  show ?case
  proof (cases "0 \<le> c")
    case True
    let ?c' = "c + uint ms"
    let ?ni1 = "ni\<lparr>arp_clock := AList.update k ?c' (arp_clock ni)\<rparr>"
    have add: "clock_add c ms = ?c'" by (rule clock_add_small [OF assms True rng(2)])
    have pos: "0 \<le> ?c'" using True uint_ge_0 [of ms] by linarith
    show ?thesis
    proof (cases "30000 \<le> ?c'")
      case evict: True
      have "tick_loop ms (k # ks) ni =
          ?ni1\<lparr>arp_table := AList.delete k (arp_table ?ni1),
                arp_clock := AList.delete k (arp_clock ?ni1)\<rparr>"
        using True evict at add by (simp add: Let_def clock_at_update)
      moreover have "consistent (?ni1\<lparr>arp_table := AList.delete k (arp_table ?ni1),
                arp_clock := AList.delete k (arp_clock ?ni1)\<rparr>)"
        using lockstep_erase [OF L, of k] D F
        by (simp add: consistent_def delete_conv' update_conv' distinct_delete
            distinct_update)
      ultimately show ?thesis by simp
    next
      case keep: False
      have step: "tick_loop ms (k # ks) ni = tick_loop ms ks ?ni1"
        using True keep at add by (simp add: Let_def clock_at_update)
      have "lockstep ?T (?C(k \<mapsto> ?c'))"
        using lockstep_age [OF L c True pos] keep by simp
      then have c1: "consistent ?ni1"
        using D F by (simp add: consistent_def update_conv' distinct_update)
      have "fst ` set (arp_clock ?ni1) = fst ` set (arp_clock ni)"
        using \<open>k \<in> fst ` set (arp_clock ni)\<close> by (auto simp: dom_update)
      with Cons.prems(2) have "set ks \<subseteq> fst ` set (arp_clock ?ni1)" by simp
      from Cons.IH [OF c1 this] step show ?thesis by simp
    qed
  next
    case False
    then have neg: "c < 0" by simp
    let ?c' = "c - uint ms"
    let ?ni1 = "ni\<lparr>arp_clock := AList.update k ?c' (arp_clock ni)\<rparr>"
    have sub: "clock_sub c ms = ?c'" by (rule clock_sub_small [OF assms rng(1) neg])
    have neg': "?c' < 0" using neg uint_ge_0 [of ms] by linarith
    show ?thesis
    proof (cases "?c' \<le> - 5001")
      case clear: True
      have "tick_loop ms (k # ks) ni = ?ni1\<lparr>arp_clock := AList.delete k (arp_clock ?ni1)\<rparr>"
        using False clear at sub by (simp add: Let_def clock_at_update)
      moreover have "consistent (?ni1\<lparr>arp_clock := AList.delete k (arp_clock ?ni1)\<rparr>)"
        using lockstep_clear [OF L c neg] D F
        by (simp add: consistent_def delete_conv' update_conv' distinct_delete distinct_update)
      ultimately show ?thesis by simp
    next
      case keep: False
      have "tick_loop ms (k # ks) ni = ?ni1"
        using False keep at sub by (simp add: Let_def clock_at_update)
      moreover have "lockstep ?T (?C(k \<mapsto> ?c'))"
        using lockstep_cool [OF L c neg _ neg'] keep by simp
      then have "consistent ?ni1"
        using D F by (simp add: consistent_def update_conv' distinct_update)
      ultimately show ?thesis by simp
    qed
  qed
qed

lemma consistent_tick:
  assumes "consistent ni" "small_tick ms" "order_ok ev"
  shows "consistent (tick ev ms ni)"
proof -
  from assms(1) have "distinct (map fst (arp_clock ni))" by (simp add: consistent_def)
  with assms(3) have "set (clock_order ev (arp_clock ni)) \<subseteq> fst ` set (arp_clock ni)"
    unfolding order_ok_def by blast
  from consistent_tick_loop [OF assms(2,1) this] assms(1)
  show ?thesis by (simp add: tick_def consistent_retrieve)
qed

lemma consistent_exec:
  assumes "consistent ni" "small_call c" "order_ok ev"
  shows "consistent (exec ev c ni)"
  using assms
  by (cases c) (simp_all add: consistent_send consistent_recv consistent_tick consistent_maybe_send)

lemma consistent_run:
  assumes "order_ok ev"
  shows "consistent ni \<Longrightarrow> list_all small_call cs \<Longrightarrow> consistent (run ev cs ni)"
  unfolding run_def
  by (induction cs arbitrary: ni) (simp_all add: consistent_exec [OF _ _ assms])

lemma not_populated_empty: "\<not> populated eth empty_frame"
  by (simp add: populated_def empty_frame_def TYPE_IPv4_def TYPE_ARP_def)

text \<open>
  C3, for runs whose ticks are small (at most 2147453648 ms each). In every state
  reached from a new interface: an address has a cache entry exactly when it has a
  non-negative age record, an address with a negative record has no cache entry, and
  an address without a record has no cache entry.
\<close>

theorem C3_maps_in_lockstep:
  assumes "order_ok ev" and "list_all small_call cs"
    and "ni = run ev cs (new_interface eth ip)"
  shows "(\<forall>a. (map_of (arp_table ni) a \<noteq> None)
               = (\<exists>c. map_of (arp_clock ni) a = Some c \<and> 0 \<le> c))
       \<and> (\<forall>a c. map_of (arp_clock ni) a = Some c \<and> c < 0 \<longrightarrow> map_of (arp_table ni) a = None)
       \<and> (\<forall>a. map_of (arp_clock ni) a = None \<longrightarrow> map_of (arp_table ni) a = None)"
proof -
  have "consistent ni"
    unfolding assms(3) by (rule consistent_run [OF assms(1) consistent_new assms(2)])
  then have L: "lockstep (map_of (arp_table ni)) (map_of (arp_clock ni))"
    by (simp add: consistent_def)
  show ?thesis
  proof (intro conjI allI impI)
    fix a
    show "(map_of (arp_table ni) a \<noteq> None) = (\<exists>c. map_of (arp_clock ni) a = Some c \<and> 0 \<le> c)"
    proof (cases "map_of (arp_clock ni) a")
      case None
      with lockstep_no_record [OF L None] show ?thesis by simp
    next
      case (Some c)
      with lockstep_cached [OF L Some] show ?thesis by simp
    qed
  next
    fix a c assume "map_of (arp_clock ni) a = Some c \<and> c < 0"
    with lockstep_cached [OF L, of a c] show "map_of (arp_table ni) a = None" by simp
  next
    fix a assume "map_of (arp_clock ni) a = None"
    then show "map_of (arp_table ni) a = None" by (rule lockstep_no_record [OF L])
  qed
qed

theorem C3_witness:
  "order_ok wire_env
   \<and> list_all small_call [Send dgram1 ipB, Recv reply_from_C, Tick 1000]
   \<and> arp_clock (run wire_env [Send dgram1 ipB, Recv reply_from_C, Tick 1000] ifA)
       = [(0x02020202, - 1001), (0x03030303, 0)]
   \<and> map_of (arp_table (run wire_env [Send dgram1 ipB, Recv reply_from_C, Tick 1000] ifA))
        0x02020202 = None
   \<and> map_of (arp_table (run wire_env [Send dgram1 ipB, Recv reply_from_C, Tick 1000] ifA))
        0x03030303 \<noteq> None"
proof -
  let ?cs = "[Send dgram1 ipB, Recv reply_from_C, Tick 1000]"
  have s: "list_all small_call ?cs" by (simp add: small_tick_def)
  have c: "arp_clock (run wire_env ?cs ifA) = [(0x02020202, - 1001), (0x03030303, 0)]"
    by (simp add: model_defs wire_defs upt_rec)
  from C3_maps_in_lockstep [OF order_ok_wire s, of "run wire_env ?cs ifA" macA ipA]
  have T: "\<And>a. (map_of (arp_table (run wire_env ?cs ifA)) a \<noteq> None)
               = (\<exists>c. map_of (arp_clock (run wire_env ?cs ifA)) a = Some c \<and> 0 \<le> c)"
    by (simp add: ifA_def)
  from T [of "0x02020202"] c
  have "map_of (arp_table (run wire_env ?cs ifA)) 0x02020202 = None" by simp
  moreover from T [of "0x03030303"] c
  have "map_of (arp_table (run wire_env ?cs ifA)) 0x03030303 \<noteq> None" by simp
  ultimately show ?thesis using c s order_ok_wire by blast
qed

text \<open>
  One tick of \<open>2^31\<close> ms after a mapping was learned: the age wraps to the smallest
  \<open>int\<close>, the entry is not evicted, and the address has a cache entry together with
  a negative record.
\<close>

theorem C3_counterexample:
  "map_of (arp_table (run wire_env [Recv reply_from_B, Tick 2147483648] ifA)) 0x02020202
     = Some macB
   \<and> map_of (arp_clock (run wire_env [Recv reply_from_B, Tick 2147483648] ifA)) 0x02020202
     = Some (- 2147483648)"
  by (simp add: model_defs wire_defs upt_rec)

text \<open>
  C10, for runs whose ticks are small. In every state reached from a new interface:
  every queued frame is populated (type IPv4 or ARP, source the interface's hardware
  address), the default-constructed frame is not in the queue, no address has a
  non-negative record without a cache entry, and a \<open>send_datagram\<close> call pushes
  either nothing or one populated frame.
\<close>

theorem C10_no_empty_frame:
  assumes "order_ok ev" and "list_all small_call cs"
    and "ni = run ev cs (new_interface eth ip)"
  shows "(\<forall>f \<in> set (outgoing_frames ni). populated eth f)
       \<and> empty_frame \<notin> set (outgoing_frames ni)
       \<and> (\<forall>a c. map_of (arp_clock ni) a = Some c \<and> 0 \<le> c \<longrightarrow> map_of (arp_table ni) a \<noteq> None)
       \<and> (\<forall>d nh. outgoing_frames (send_datagram ev d nh ni) = outgoing_frames ni
                \<or> (\<exists>f. populated eth f \<and> f \<noteq> empty_frame
                       \<and> outgoing_frames (send_datagram ev d nh ni) = outgoing_frames ni @ [f]))"
proof -
  have C: "consistent ni"
    unfolding assms(3) by (rule consistent_run [OF assms(1) consistent_new assms(2)])
  have E: "ethernet_address ni = eth"
    unfolding assms(3) by (simp add: eth_run new_interface_def)
  from C E have F: "\<forall>f \<in> set (outgoing_frames ni). populated eth f"
    by (simp add: consistent_def)
  from C have L: "lockstep (map_of (arp_table ni)) (map_of (arp_clock ni))"
    by (simp add: consistent_def)
  have S: "outgoing_frames (send_datagram ev d nh ni) = outgoing_frames ni
                \<or> (\<exists>f. populated eth f \<and> f \<noteq> empty_frame
                       \<and> outgoing_frames (send_datagram ev d nh ni) = outgoing_frames ni @ [f])"
    for d nh
  proof -
    from consistent_send [OF C, of ev d nh] E
    have P: "\<forall>f \<in> set (outgoing_frames (send_datagram ev d nh ni)). populated eth f"
      by (simp add: consistent_def eth_send)
    from send_datagram_frames [of ev d nh ni] show ?thesis
    proof
      assume "outgoing_frames (send_datagram ev d nh ni) = outgoing_frames ni"
      then show ?thesis by simp
    next
      assume "\<exists>f. outgoing_frames (send_datagram ev d nh ni) = outgoing_frames ni @ [f]"
      then obtain f where f: "outgoing_frames (send_datagram ev d nh ni) = outgoing_frames ni @ [f]"
        by blast
      with P have "populated eth f" by simp
      moreover from this have "f \<noteq> empty_frame" using not_populated_empty by blast
      ultimately show ?thesis using f by blast
    qed
  qed
  from F have "empty_frame \<notin> set (outgoing_frames ni)"
    using not_populated_empty by blast
  moreover have "\<forall>a c. map_of (arp_clock ni) a = Some c \<and> 0 \<le> c \<longrightarrow> map_of (arp_table ni) a \<noteq> None"
    using lockstep_cached [OF L] by blast
  ultimately show ?thesis using F S by blast
qed

theorem C10_witness:
  "order_ok wire_env
   \<and> list_all small_call [Send dgram1 ipB, Tick 2147453648, Send dgram2 ipB]
   \<and> outgoing_frames (run wire_env [Send dgram1 ipB, Tick 2147453648, Send dgram2 ipB] ifA)
       = [request_frame wire_env ifA 0x02020202, request_frame wire_env ifA 0x02020202]
   \<and> empty_frame \<notin> set (outgoing_frames
         (run wire_env [Send dgram1 ipB, Tick 2147453648, Send dgram2 ipB] ifA))"
proof -
  let ?cs = "[Send dgram1 ipB, Tick 2147453648, Send dgram2 ipB]"
  have s: "list_all small_call ?cs" by (simp add: small_tick_def)
  have o: "outgoing_frames (run wire_env ?cs ifA)
       = [request_frame wire_env ifA 0x02020202, request_frame wire_env ifA 0x02020202]"
    by (simp add: model_defs wire_defs upt_rec)
  from C10_no_empty_frame [OF order_ok_wire s, of "run wire_env ?cs ifA" macA ipA]
  have "empty_frame \<notin> set (outgoing_frames (run wire_env ?cs ifA))"
    by (simp add: ifA_def)
  with s o order_ok_wire show ?thesis by blast
qed

text \<open>
  One tick of \<open>2^31\<close> ms on a pending address: the countdown wraps to the largest
  \<open>int\<close>, the record is non-negative without a cache entry, and the flush of the
  same tick pushes the default-constructed frame.
\<close>

theorem C10_counterexample:
  "outgoing_frames (run wire_env [Send dgram1 ipB, Tick 2147483648] ifA)
     = [request_frame wire_env ifA 0x02020202, empty_frame]
   \<and> map_of (arp_clock (run wire_env [Send dgram1 ipB, Tick 2147483648] ifA)) 0x02020202
     = Some 2147483647
   \<and> map_of (arp_table (run wire_env [Send dgram1 ipB, Tick 2147483648] ifA)) 0x02020202
     = None"
  by (simp add: model_defs wire_defs upt_rec)

section \<open>Ageing of a record among cached neighbours\<close>

text \<open>
  While every other age record is non-negative and stays below the TTL, no earlier
  record stops the loop of \<open>tick\<close>, so each tick reaches the record of the address
  in question, in whatever order the keys come. The lemmas below follow that record
  through a list of small ticks.
\<close>

lemma others_fresh_start:
  assumes "order_ok ev" "others_cached ni k lim"
  shows "others_fresh ni k (clock_order ev (arp_clock ni)) lim ms"
proof -
  from assms(2) have d: "distinct (map fst (arp_clock ni))" by (simp add: others_cached_def)
  with assms(1) have "distinct (clock_order ev (arp_clock ni))"
    "set (clock_order ev (arp_clock ni)) = fst ` set (arp_clock ni)"
    unfolding order_ok_def by blast+
  moreover have "cj < lim + uint ms" if "cj < lim" for cj
    using that uint_ge_0 [of ms] by linarith
  ultimately show ?thesis using assms(2) d
    unfolding others_fresh_def others_cached_def by auto
qed

lemma others_fresh_done:
  assumes "others_fresh ni k ks lim ms"
  shows "others_cached ni k (lim + uint ms)"
  using assms unfolding others_fresh_def others_cached_def by blast

lemma tick_loop_untouched:
  "k \<notin> set ks \<Longrightarrow>
     map_of (arp_clock (tick_loop ms ks ni)) k = map_of (arp_clock ni) k
     \<and> map_of (arp_table (tick_loop ms ks ni)) k = map_of (arp_table ni) k"
proof (induction ks arbitrary: ni)
  case Nil
  then show ?case by simp
next
  case (Cons j ks)
  then have jk: "j \<noteq> k" and kk: "k \<notin> set ks" by auto
  show ?case
    using jk Cons.IH [OF kk]
    by (simp add: Let_def update_conv' delete_conv')
qed

lemma step_other:
  assumes "others_fresh ni k (j # ks) lim ms" "j \<noteq> k" "small_tick ms" "lim + uint ms \<le> 30000"
  shows "\<exists>cj. map_of (arp_clock ni) j = Some cj
           \<and> tick_loop ms (j # ks) ni
               = tick_loop ms ks (ni\<lparr>arp_clock := AList.update j (cj + uint ms) (arp_clock ni)\<rparr>)
           \<and> others_fresh (ni\<lparr>arp_clock := AList.update j (cj + uint ms) (arp_clock ni)\<rparr>)
                k ks lim ms"
proof -
  from assms(1) have jin: "j \<in> fst ` set (arp_clock ni)" and jn: "j \<notin> set ks"
    and dk: "distinct ks" and sub: "set ks \<subseteq> fst ` set (arp_clock ni)"
    and d: "distinct (map fst (arp_clock ni))"
    and R: "\<And>i ci. i \<noteq> k \<Longrightarrow> map_of (arp_clock ni) i = Some ci \<Longrightarrow>
             0 \<le> ci \<and> ci < lim + uint ms \<and> (i \<in> set (j # ks) \<longrightarrow> ci < lim)"
    unfolding others_fresh_def by auto
  from jin obtain cj where cj: "map_of (arp_clock ni) j = Some cj"
    by (metis map_of_eq_None_iff not_None_eq)
  from R [OF assms(2) cj] have r: "0 \<le> cj" "cj < lim" by simp_all
  have u: "0 \<le> uint ms" by simp
  from r assms(4) u have lt: "cj < 30000" by linarith
  have add: "clock_add cj ms = cj + uint ms" by (rule clock_add_small [OF assms(3) r(1) lt])
  have at: "clock_at ni j = cj" using cj by (simp add: clock_at_def)
  let ?ni1 = "ni\<lparr>arp_clock := AList.update j (cj + uint ms) (arp_clock ni)\<rparr>"
  have keep: "\<not> 30000 \<le> cj + uint ms" using r(2) assms(4) by linarith
  have step: "tick_loop ms (j # ks) ni = tick_loop ms ks ?ni1"
    using r(1) at add keep by (simp add: Let_def clock_at_update)
  have keys: "fst ` set (arp_clock ?ni1) = fst ` set (arp_clock ni)"
    using jin by (auto simp: dom_update)
  have "others_fresh ?ni1 k ks lim ms"
    unfolding others_fresh_def
  proof (intro conjI allI impI)
    show "distinct ks" by (rule dk)
    show "set ks \<subseteq> fst ` set (arp_clock ?ni1)" using sub keys by simp
    show "distinct (map fst (arp_clock ?ni1))" using d by (simp add: distinct_update)
  next
    fix i ci assume ik: "i \<noteq> k" and ci: "map_of (arp_clock ?ni1) i = Some ci"
    show "0 \<le> ci"
    proof (cases "i = j")
      case True
      with ci have "ci = cj + uint ms" by (simp add: update_conv')
      with r(1) u show ?thesis by linarith
    next
      case False
      with ci have "map_of (arp_clock ni) i = Some ci" by (simp add: update_conv')
      from R [OF ik this] show ?thesis by simp
    qed
    show "ci < lim + uint ms"
    proof (cases "i = j")
      case True
      with ci have "ci = cj + uint ms" by (simp add: update_conv')
      with r(2) show ?thesis by linarith
    next
      case False
      with ci have "map_of (arp_clock ni) i = Some ci" by (simp add: update_conv')
      from R [OF ik this] show ?thesis by simp
    qed
  next
    fix i ci assume ik: "i \<noteq> k" and ci: "map_of (arp_clock ?ni1) i = Some ci"
      and iks: "i \<in> set ks"
    from iks jn have "i \<noteq> j" by auto
    with ci have "map_of (arp_clock ni) i = Some ci" by (simp add: update_conv')
    from R [OF ik this] iks show "ci < lim" by simp
  qed
  with cj step show ?thesis by blast
qed


lemma others_unvisited:
  assumes "small_tick ms" "lim + uint ms \<le> 30000"
  shows "others_fresh ni k ks lim ms \<Longrightarrow> k \<notin> set ks
         \<Longrightarrow> others_cached (tick_loop ms ks ni) k (lim + uint ms)"
proof (induction ks arbitrary: ni)
  case Nil
  then show ?case by (simp add: others_fresh_done)
next
  case (Cons j ks)
  then have jk: "j \<noteq> k" and kk: "k \<notin> set ks" by auto
  from step_other [OF Cons.prems(1) jk assms] obtain cj where
    st: "tick_loop ms (j # ks) ni
               = tick_loop ms ks (ni\<lparr>arp_clock := AList.update j (cj + uint ms) (arp_clock ni)\<rparr>)"
    and f: "others_fresh (ni\<lparr>arp_clock := AList.update j (cj + uint ms) (arp_clock ni)\<rparr>)
                k ks lim ms" by blast
  from Cons.IH [OF f kk] st show ?case by simp
qed

lemma others_cached_change_k:
  assumes "others_fresh ni k ks lim ms"
    and "distinct (map fst (arp_clock ni'))"
    and "\<And>i. i \<noteq> k \<Longrightarrow> map_of (arp_clock ni') i = map_of (arp_clock ni) i"
  shows "others_cached ni' k (lim + uint ms)"
  using assms unfolding others_fresh_def others_cached_def by auto

lemma loop_pending:
  assumes "small_tick ms" "lim + uint ms \<le> 30000"
  shows "others_fresh ni k ks lim ms \<Longrightarrow> k \<in> set ks
         \<Longrightarrow> map_of (arp_clock ni) k = Some c \<Longrightarrow> c < 0 \<Longrightarrow> - 5000 \<le> c
         \<Longrightarrow> map_of (arp_clock (tick_loop ms ks ni)) k
               = (if c - uint ms \<le> - 5001 then None else Some (c - uint ms))
             \<and> map_of (arp_table (tick_loop ms ks ni)) k = map_of (arp_table ni) k
             \<and> others_cached (tick_loop ms ks ni) k (lim + uint ms)"
proof (induction ks arbitrary: ni)
  case Nil
  then show ?case by simp
next
  case (Cons j ks)
  show ?case
  proof (cases "j = k")
    case True
    have at: "clock_at ni k = c" using Cons.prems(3) by (simp add: clock_at_def)
    have sub: "clock_sub c ms = c - uint ms"
      by (rule clock_sub_small [OF assms(1) Cons.prems(5,4)])
    from Cons.prems(1) have d: "distinct (map fst (arp_clock ni))"
      by (simp add: others_fresh_def)
    let ?ni1 = "ni\<lparr>arp_clock := AList.update k (c - uint ms) (arp_clock ni)\<rparr>"
    show ?thesis
    proof (cases "c - uint ms \<le> - 5001")
      case clear: True
      have t: "tick_loop ms (j # ks) ni = ?ni1\<lparr>arp_clock := AList.delete k (arp_clock ?ni1)\<rparr>"
        using True at sub Cons.prems(4) clear by (simp add: Let_def clock_at_update)
      have "others_cached (?ni1\<lparr>arp_clock := AList.delete k (arp_clock ?ni1)\<rparr>) k (lim + uint ms)"
        using d
        by (intro others_cached_change_k [OF Cons.prems(1)])
          (simp_all add: distinct_delete distinct_update delete_conv' update_conv')
      with t clear show ?thesis by (simp add: delete_conv')
    next
      case keep: False
      have t: "tick_loop ms (j # ks) ni = ?ni1"
        using True at sub Cons.prems(4) keep by (simp add: Let_def clock_at_update)
      have "others_cached ?ni1 k (lim + uint ms)"
        using d
        by (intro others_cached_change_k [OF Cons.prems(1)])
          (simp_all add: distinct_update update_conv')
      with t keep show ?thesis by (simp add: update_conv')
    qed
  next
    case False
    with Cons.prems(2) have kk: "k \<in> set ks" by simp
    from step_other [OF Cons.prems(1) False assms] obtain cj where
      st: "tick_loop ms (j # ks) ni
               = tick_loop ms ks (ni\<lparr>arp_clock := AList.update j (cj + uint ms) (arp_clock ni)\<rparr>)"
      and f: "others_fresh (ni\<lparr>arp_clock := AList.update j (cj + uint ms) (arp_clock ni)\<rparr>)
                k ks lim ms" by blast
    let ?ni1 = "ni\<lparr>arp_clock := AList.update j (cj + uint ms) (arp_clock ni)\<rparr>"
    have c1: "map_of (arp_clock ?ni1) k = Some c"
      using False Cons.prems(3) by (simp add: update_conv')
    from Cons.IH [OF f kk c1 Cons.prems(4,5)] st show ?thesis by simp
  qed
qed

lemma loop_resolved:
  assumes "small_tick ms" "lim + uint ms \<le> 30000"
  shows "others_fresh ni k ks lim ms \<Longrightarrow> k \<in> set ks
         \<Longrightarrow> map_of (arp_clock ni) k = Some c \<Longrightarrow> 0 \<le> c \<Longrightarrow> c < 30000
         \<Longrightarrow> map_of (arp_clock (tick_loop ms ks ni)) k
               = (if 30000 \<le> c + uint ms then None else Some (c + uint ms))
             \<and> map_of (arp_table (tick_loop ms ks ni)) k
               = (if 30000 \<le> c + uint ms then None else map_of (arp_table ni) k)
             \<and> others_cached (tick_loop ms ks ni) k (lim + uint ms)"
proof (induction ks arbitrary: ni)
  case Nil
  then show ?case by simp
next
  case (Cons j ks)
  show ?case
  proof (cases "j = k")
    case True
    have at: "clock_at ni k = c" using Cons.prems(3) by (simp add: clock_at_def)
    have add: "clock_add c ms = c + uint ms"
      by (rule clock_add_small [OF assms(1) Cons.prems(4,5)])
    from Cons.prems(1) have d: "distinct (map fst (arp_clock ni))"
      and kn: "k \<notin> set ks" and dk: "distinct ks"
      and sub: "set ks \<subseteq> fst ` set (arp_clock ni)"
      using True by (simp_all add: others_fresh_def)
    let ?ni1 = "ni\<lparr>arp_clock := AList.update k (c + uint ms) (arp_clock ni)\<rparr>"
    show ?thesis
    proof (cases "30000 \<le> c + uint ms")
      case evict: True
      let ?ni2 = "?ni1\<lparr>arp_table := AList.delete k (arp_table ?ni1),
                        arp_clock := AList.delete k (arp_clock ?ni1)\<rparr>"
      have t: "tick_loop ms (j # ks) ni = ?ni2"
        using True at add Cons.prems(4) evict by (simp add: Let_def clock_at_update)
      have "others_cached ?ni2 k (lim + uint ms)"
        using d
        by (intro others_cached_change_k [OF Cons.prems(1)])
          (simp_all add: distinct_delete distinct_update delete_conv' update_conv')
      with t evict show ?thesis by (simp add: delete_conv')
    next
      case keep: False
      have t: "tick_loop ms (j # ks) ni = tick_loop ms ks ?ni1"
        using True at add Cons.prems(4) keep by (simp add: Let_def clock_at_update)
      have kin: "k \<in> fst ` set (arp_clock ni)"
        using Cons.prems(3) by (metis map_of_eq_None_iff option.distinct(1))
      have f: "others_fresh ?ni1 k ks lim ms"
        using Cons.prems(1) True kin
        unfolding others_fresh_def
        by (auto simp: distinct_update update_conv' dom_update)
      from others_unvisited [OF assms f kn]
      have o: "others_cached (tick_loop ms ks ?ni1) k (lim + uint ms)" .
      from tick_loop_untouched [OF kn, of ms ?ni1] t keep o show ?thesis
        by (simp add: update_conv')
    qed
  next
    case False
    with Cons.prems(2) have kk: "k \<in> set ks" by simp
    from step_other [OF Cons.prems(1) False assms] obtain cj where
      st: "tick_loop ms (j # ks) ni
               = tick_loop ms ks (ni\<lparr>arp_clock := AList.update j (cj + uint ms) (arp_clock ni)\<rparr>)"
      and f: "others_fresh (ni\<lparr>arp_clock := AList.update j (cj + uint ms) (arp_clock ni)\<rparr>)
                k ks lim ms" by blast
    let ?ni1 = "ni\<lparr>arp_clock := AList.update j (cj + uint ms) (arp_clock ni)\<rparr>"
    have c1: "map_of (arp_clock ?ni1) k = Some c"
      using False Cons.prems(3) by (simp add: update_conv')
    from Cons.IH [OF f kk c1 Cons.prems(4,5)] st show ?thesis by simp
  qed
qed


lemma others_cached_retrieve:
  "others_cached (retrieve_datagram ev ni) k lim = others_cached ni k lim"
  by (simp add: others_cached_def retrieve_datagram_maps)

lemma key_in_order:
  assumes "order_ok ev" "distinct (map fst (arp_clock ni))" "map_of (arp_clock ni) k = Some c"
  shows "k \<in> set (clock_order ev (arp_clock ni))"
proof -
  from assms(3) have "k \<in> fst ` set (arp_clock ni)"
    by (metis map_of_eq_None_iff option.distinct(1))
  with assms(1,2) show ?thesis unfolding order_ok_def by blast
qed

lemma tick_pending_among_cached:
  assumes "order_ok ev" "small_tick ms" "lim + uint ms \<le> 30000"
    and "others_cached ni k lim"
    and "map_of (arp_clock ni) k = Some c" "c < 0" "- 5000 \<le> c"
  shows "map_of (arp_clock (tick ev ms ni)) k
           = (if c - uint ms \<le> - 5001 then None else Some (c - uint ms))"
    and "map_of (arp_table (tick ev ms ni)) k = map_of (arp_table ni) k"
    and "others_cached (tick ev ms ni) k (lim + uint ms)"
proof -
  let ?ks = "clock_order ev (arp_clock ni)"
  from assms(4) have d: "distinct (map fst (arp_clock ni))" by (simp add: others_cached_def)
  have ne: "arp_clock ni \<noteq> []" using assms(5) by auto
  then have t: "tick ev ms ni = retrieve_datagram ev (tick_loop ms ?ks ni)"
    by (simp add: tick_def)
  note l = loop_pending [OF assms(2,3) others_fresh_start [OF assms(1,4)]
      key_in_order [OF assms(1) d assms(5)] assms(5,6,7)]
  show "map_of (arp_clock (tick ev ms ni)) k
           = (if c - uint ms \<le> - 5001 then None else Some (c - uint ms))"
    unfolding t retrieve_datagram_maps using l by blast
  show "map_of (arp_table (tick ev ms ni)) k = map_of (arp_table ni) k"
    unfolding t retrieve_datagram_maps using l by blast
  show "others_cached (tick ev ms ni) k (lim + uint ms)"
    unfolding t others_cached_retrieve using l by blast
qed

lemma tick_resolved_among_cached:
  assumes "order_ok ev" "small_tick ms" "lim + uint ms \<le> 30000"
    and "others_cached ni k lim"
    and "map_of (arp_clock ni) k = Some c" "0 \<le> c" "c < 30000"
  shows "map_of (arp_clock (tick ev ms ni)) k
           = (if 30000 \<le> c + uint ms then None else Some (c + uint ms))"
    and "map_of (arp_table (tick ev ms ni)) k
           = (if 30000 \<le> c + uint ms then None else map_of (arp_table ni) k)"
    and "others_cached (tick ev ms ni) k (lim + uint ms)"
proof -
  let ?ks = "clock_order ev (arp_clock ni)"
  from assms(4) have d: "distinct (map fst (arp_clock ni))" by (simp add: others_cached_def)
  have ne: "arp_clock ni \<noteq> []" using assms(5) by auto
  then have t: "tick ev ms ni = retrieve_datagram ev (tick_loop ms ?ks ni)"
    by (simp add: tick_def)
  note l = loop_resolved [OF assms(2,3) others_fresh_start [OF assms(1,4)]
      key_in_order [OF assms(1) d assms(5)] assms(5,6,7)]
  show "map_of (arp_clock (tick ev ms ni)) k
           = (if 30000 \<le> c + uint ms then None else Some (c + uint ms))"
    unfolding t retrieve_datagram_maps using l by blast
  show "map_of (arp_table (tick ev ms ni)) k
           = (if 30000 \<le> c + uint ms then None else map_of (arp_table ni) k)"
    unfolding t retrieve_datagram_maps using l by blast
  show "others_cached (tick ev ms ni) k (lim + uint ms)"
    unfolding t others_cached_retrieve using l by blast
qed

lemma small_ticks_of_sum:
  "sum_list (map uint (mss :: 64 word list)) < 30000 \<Longrightarrow> list_all small_tick mss"
proof (induction mss)
  case Nil
  then show ?case by simp
next
  case (Cons ms mss)
  have nn: "0 \<le> sum_list (map uint mss)" by (rule sum_uint_nonneg)
  have u: "0 \<le> uint ms" by simp
  from Cons.prems have t: "uint ms + sum_list (map uint mss) < 30000" by simp
  from t nn have "uint ms < 30000" by linarith
  then have "small_tick ms" by (simp add: small_tick_def)
  moreover from t u have "sum_list (map uint mss) < 30000" by linarith
  then have "list_all small_tick mss" by (rule Cons.IH)
  ultimately show ?case by simp
qed

lemma others_cachedI:
  assumes "distinct (map fst l)"
    and "\<And>j cj. j \<noteq> k \<Longrightarrow> map_of l j = Some cj \<Longrightarrow> 0 \<le> cj \<and> cj + a < 30000"
    and "arp_clock ni = l"
  shows "others_cached ni k (30000 - a)"
  unfolding others_cached_def assms(3)
proof (intro conjI allI impI)
  show "distinct (map fst l)" by (rule assms(1))
next
  fix j cj assume h: "j \<noteq> k" "map_of l j = Some cj"
  from assms(2) [OF h] show "0 \<le> cj" by simp
  from assms(2) [OF h] show "cj < 30000 - a" by linarith
qed

lemma ticks_pending_among_cached:
  assumes "order_ok ev"
  shows "list_all small_tick mss \<Longrightarrow> others_cached ni k lim
         \<Longrightarrow> lim + sum_list (map uint mss) \<le> 30000
         \<Longrightarrow> map_of (arp_clock ni) k = Some c \<Longrightarrow> c < 0
         \<Longrightarrow> - 5000 \<le> c - sum_list (map uint mss)
         \<Longrightarrow> map_of (arp_clock (ticks ev mss ni)) k = Some (c - sum_list (map uint mss))
             \<and> map_of (arp_table (ticks ev mss ni)) k = map_of (arp_table ni) k
             \<and> others_cached (ticks ev mss ni) k (lim + sum_list (map uint mss))"
proof (induction mss arbitrary: ni c lim)
  case Nil
  then show ?case by (simp add: ticks_def)
next
  case (Cons ms mss)
  have nn: "0 \<le> sum_list (map uint mss)" by (rule sum_uint_nonneg)
  have u: "0 \<le> uint ms" by simp
  from Cons.prems(1) have sm: "small_tick ms" and sms: "list_all small_tick mss" by simp_all
  from Cons.prems(3) nn have b: "lim + uint ms \<le> 30000" by simp
  from Cons.prems(6) nn have lo: "- 5000 \<le> c - uint ms" by simp
  with u have lo0: "- 5000 \<le> c" by linarith
  note t = tick_pending_among_cached [OF assms sm b Cons.prems(2,4,5) lo0]
  from t(1) lo have c1: "map_of (arp_clock (tick ev ms ni)) k = Some (c - uint ms)" by simp
  have neg: "c - uint ms < 0" using Cons.prems(5) u by linarith
  have b2: "lim + uint ms + sum_list (map uint mss) \<le> 30000" using Cons.prems(3) by simp
  have lo2: "- 5000 \<le> c - uint ms - sum_list (map uint mss)" using Cons.prems(6) by simp
  have "ticks ev (ms # mss) ni = ticks ev mss (tick ev ms ni)" by (simp add: ticks_def)
  with Cons.IH [OF sms t(3) b2 c1 neg lo2] t(2) show ?case by (simp add: algebra_simps)
qed

lemma ticks_resolved_among_cached:
  assumes "order_ok ev"
  shows "list_all small_tick mss \<Longrightarrow> others_cached ni k lim
         \<Longrightarrow> lim + sum_list (map uint mss) \<le> 30000
         \<Longrightarrow> map_of (arp_clock ni) k = Some c \<Longrightarrow> 0 \<le> c
         \<Longrightarrow> c + sum_list (map uint mss) < 30000
         \<Longrightarrow> map_of (arp_clock (ticks ev mss ni)) k = Some (c + sum_list (map uint mss))
             \<and> map_of (arp_table (ticks ev mss ni)) k = map_of (arp_table ni) k
             \<and> others_cached (ticks ev mss ni) k (lim + sum_list (map uint mss))"
proof (induction mss arbitrary: ni c lim)
  case Nil
  then show ?case by (simp add: ticks_def)
next
  case (Cons ms mss)
  have nn: "0 \<le> sum_list (map uint mss)" by (rule sum_uint_nonneg)
  have u: "0 \<le> uint ms" by simp
  from Cons.prems(1) have sm: "small_tick ms" and sms: "list_all small_tick mss" by simp_all
  from Cons.prems(3) nn have b: "lim + uint ms \<le> 30000" by simp
  from Cons.prems(6) nn have hi: "c + uint ms < 30000" by simp
  with u have hi0: "c < 30000" by linarith
  note t = tick_resolved_among_cached [OF assms sm b Cons.prems(2,4,5) hi0]
  from t(1) hi have c1: "map_of (arp_clock (tick ev ms ni)) k = Some (c + uint ms)" by simp
  from t(2) hi have t1: "map_of (arp_table (tick ev ms ni)) k = map_of (arp_table ni) k" by simp
  have pos: "0 \<le> c + uint ms" using Cons.prems(5) u by linarith
  have b2: "lim + uint ms + sum_list (map uint mss) \<le> 30000" using Cons.prems(3) by simp
  have hi2: "c + uint ms + sum_list (map uint mss) < 30000" using Cons.prems(6) by simp
  have "ticks ev (ms # mss) ni = ticks ev mss (tick ev ms ni)" by (simp add: ticks_def)
  with Cons.IH [OF sms t(3) b2 c1 pos hi2] t1 show ?case by (simp add: algebra_simps)
qed

lemma ip_send: "ip_address (send_datagram ev d nh ni) = ip_address ni"
  by (simp add: send_datagram_def push_frame_def Let_def split: option.splits)

text \<open>
  C7, for small ticks and neighbours that stay cached. A next hop that is in neither
  map, on an interface whose age records are all non-negative and do not reach the
  TTL within the ticks considered: \<open>send_datagram\<close> starts the record at \<open>-1\<close>;
  while the ticks add up to less than 5000 ms the record is \<open>-1\<close> minus their sum and
  a further send is queued without a frame; the tick with which the sum reaches 5000 ms
  or more clears the record; a send after that pushes a fresh ARP request and starts
  the record again.
\<close>

theorem C7_cooldown_window:
  assumes "order_ok ev"
    and "distinct (map fst (arp_clock ni))"
    and "Unknown ni (ipv4_numeric nh)"
    and "\<forall>j cj. map_of (arp_clock ni) j = Some cj
           \<longrightarrow> 0 \<le> cj \<and> cj + sum_list (map uint mss) + uint ms < 30000"
    and "small_tick ms"
    and "sum_list (map uint mss) < 5000"
    and "5000 \<le> sum_list (map uint mss) + uint ms"
    and "s1 = send_datagram ev d nh ni"
    and "s2 = ticks ev mss s1"
    and "s3 = tick ev ms s2"
  shows "map_of (arp_clock s1) (ipv4_numeric nh) = Some (- 1)
       \<and> map_of (arp_clock s2) (ipv4_numeric nh) = Some (- 1 - sum_list (map uint mss))
       \<and> outgoing_frames (send_datagram ev d' nh s2) = outgoing_frames s2
       \<and> dgram_table (send_datagram ev d' nh s2) = dgram_table s2 @ [(nh, d')]
       \<and> map_of (arp_clock s3) (ipv4_numeric nh) = None
       \<and> outgoing_frames (send_datagram ev d' nh s3)
           = outgoing_frames s3 @ [request_frame ev ni (ipv4_numeric nh)]
       \<and> map_of (arp_clock (send_datagram ev d' nh s3)) (ipv4_numeric nh) = Some (- 1)"
proof -
  let ?k = "ipv4_numeric nh"
  let ?sum = "sum_list (map uint mss)"
  let ?lim = "30000 - (?sum + uint ms)"
  have nn: "0 \<le> ?sum" by (rule sum_uint_nonneg)
  from assms(3) have U: "map_of (arp_table ni) ?k = None" "map_of (arp_clock ni) ?k = None"
    by (simp_all add: Unknown_def)
  have s1: "s1 = ni\<lparr>dgram_table := dgram_table ni @ [(nh, d)],
              arp_clock := AList.update ?k (- 1) (arp_clock ni),
              outgoing_frames := outgoing_frames ni @ [request_frame ev ni ?k]\<rparr>"
    unfolding assms(8) by (rule send_unknown [OF assms(3)])
  have c1: "map_of (arp_clock s1) ?k = Some (- 1)" by (simp add: s1 update_conv')
  have t1: "map_of (arp_table s1) ?k = None" by (simp add: s1 U)
  have o1: "others_cached s1 ?k (30000 - (?sum + uint ms))"
  proof (rule others_cachedI [where l = "AList.update ?k (- 1) (arp_clock ni)"])
    show "distinct (map fst (AList.update ?k (- 1) (arp_clock ni)))"
      using assms(2) by (simp add: distinct_update)
    show "arp_clock s1 = AList.update ?k (- 1) (arp_clock ni)" by (simp add: s1)
    fix j cj assume "j \<noteq> ?k" "map_of (AList.update ?k (- 1) (arp_clock ni)) j = Some cj"
    then have "map_of (arp_clock ni) j = Some cj" by (simp add: update_conv')
    with assms(4) have "0 \<le> cj \<and> cj + ?sum + uint ms < 30000" by blast
    then show "0 \<le> cj \<and> cj + (?sum + uint ms) < 30000" by linarith
  qed
  have sm: "list_all small_tick mss"
    using assms(6) by (intro small_ticks_of_sum) simp
  have b: "?lim + ?sum \<le> 30000" by simp
  have lo: "- 5000 \<le> - 1 - ?sum" using assms(6) by simp
  from ticks_pending_among_cached [OF assms(1) sm o1 b c1 _ lo]
  have c2: "map_of (arp_clock s2) ?k = Some (- 1 - ?sum)"
    and t2: "map_of (arp_table s2) ?k = None"
    and o2: "others_cached s2 ?k (?lim + ?sum)"
    by (simp_all add: assms(9) t1)
  have p2: "send_datagram ev d' nh s2 = s2\<lparr>dgram_table := dgram_table s2 @ [(nh, d')]\<rparr>"
    using nn by (intro send_pending [OF t2 c2]) simp
  have b3: "?lim + ?sum + uint ms \<le> 30000" by simp
  have neg2: "- 1 - ?sum < 0" using nn by simp
  from tick_pending_among_cached [OF assms(1,5) b3 o2 c2 neg2 lo] assms(7)
  have c3: "map_of (arp_clock s3) ?k = None" and t3: "map_of (arp_table s3) ?k = None"
    by (simp_all add: assms(10) t2)
  have U3: "Unknown s3 ?k" by (simp add: Unknown_def c3 t3)
  have a3: "ethernet_address s3 = ethernet_address ni" "ip_address s3 = ip_address ni"
    by (simp_all add: assms(8,9,10) eth_tick ip_tick addr_ticks eth_send ip_send)
  have r3: "request_frame ev s3 ?k = request_frame ev ni ?k"
    by (simp add: request_frame_def arp_request_def a3)
  from send_unknown [OF U3, of ev d'] r3
  have p3: "outgoing_frames (send_datagram ev d' nh s3)
           = outgoing_frames s3 @ [request_frame ev ni ?k]"
    "map_of (arp_clock (send_datagram ev d' nh s3)) ?k = Some (- 1)"
    by (simp_all add: update_conv')
  from c1 c2 p2 c3 p3 show ?thesis by simp
qed

theorem C7_witness:
  "order_ok wire_env
   \<and> arp_clock (run wire_env [Recv reply_from_C] ifA) = [(0x03030303, 0)]
   \<and> Unknown (run wire_env [Recv reply_from_C] ifA) (ipv4_numeric ipB)
   \<and> small_tick 1
   \<and> sum_list (map uint [2000, 2999 :: 64 word]) < 5000
   \<and> 5000 \<le> sum_list (map uint [2000, 2999 :: 64 word]) + uint (1 :: 64 word)
   \<and> arp_clock (ticks wire_env [2000, 2999]
        (send_datagram wire_env dgram1 ipB (run wire_env [Recv reply_from_C] ifA)))
       = [(0x03030303, 4999), (0x02020202, - 5000)]
   \<and> map_of (arp_clock (tick wire_env 1 (ticks wire_env [2000, 2999]
        (send_datagram wire_env dgram1 ipB (run wire_env [Recv reply_from_C] ifA)))))
        0x02020202 = None
   \<and> outgoing_frames (send_datagram wire_env dgram2 ipB (tick wire_env 1
        (ticks wire_env [2000, 2999]
          (send_datagram wire_env dgram1 ipB (run wire_env [Recv reply_from_C] ifA)))))
       = [request_frame wire_env ifA 0x02020202, request_frame wire_env ifA 0x02020202]"
proof -
  let ?ni = "run wire_env [Recv reply_from_C] ifA"
  let ?s3 = "tick wire_env 1 (ticks wire_env [2000, 2999] (send_datagram wire_env dgram1 ipB ?ni))"
  have cl: "arp_clock ?ni = [(0x03030303, 0)]" by (simp add: wire_defs model_defs upt_rec)
  have h2: "distinct (map fst (arp_clock ?ni))" by (simp add: cl)
  have h3: "Unknown ?ni (ipv4_numeric ipB)" by (simp add: Unknown_def wire_defs model_defs upt_rec)
  have h4: "\<forall>j cj. map_of (arp_clock ?ni) j = Some cj
           \<longrightarrow> 0 \<le> cj \<and> cj + sum_list (map uint [2000, 2999 :: 64 word]) + uint (1 :: 64 word) < 30000"
    by (auto simp: cl split: if_splits)
  have h5: "small_tick 1" by (simp add: small_tick_def)
  have h6: "sum_list (map uint [2000, 2999 :: 64 word]) < 5000" by simp
  have h7: "5000 \<le> sum_list (map uint [2000, 2999 :: 64 word]) + uint (1 :: 64 word)" by simp
  have c2: "arp_clock (ticks wire_env [2000, 2999] (send_datagram wire_env dgram1 ipB ?ni))
       = [(0x03030303, 4999), (0x02020202, - 5000)]"
    by (simp add: wire_defs model_defs upt_rec)
  have o3: "outgoing_frames ?s3 = [request_frame wire_env ifA 0x02020202]"
    by (simp add: wire_defs model_defs upt_rec)
  have r: "request_frame wire_env ?ni 0x02020202 = request_frame wire_env ifA 0x02020202"
    by (simp add: wire_defs model_defs upt_rec)
  from C7_cooldown_window [OF order_ok_wire h2 h3 h4 h5 h6 h7 refl refl refl, of dgram1 dgram2] o3 r
  have "map_of (arp_clock ?s3) 0x02020202 = None
      \<and> outgoing_frames (send_datagram wire_env dgram2 ipB ?s3)
       = [request_frame wire_env ifA 0x02020202, request_frame wire_env ifA 0x02020202]"
    by (simp add: ipB_def)
  with order_ok_wire cl h3 h5 h6 h7 c2 show ?thesis by blast
qed

text \<open>
  With two pending addresses a tick of 6000 ms clears only the record it visits first;
  the other stays at \<open>-1\<close> and a send to it is queued without a frame, in either
  visiting order. And one tick of \<open>2^31\<close> ms on a single pending record wraps it to a
  positive value: it is not cleared, and the sends that follow push the
  default-constructed frame.
\<close>

theorem C7_counterexample:
  "arp_clock (tick wire_env 6000 (run wire_env [Send dgram1 ipB, Send dgram3 ipC] ifA))
     = [(0x03030303, - 1)]
   \<and> outgoing_frames (send_datagram wire_env dgram2 ipC
        (tick wire_env 6000 (run wire_env [Send dgram1 ipB, Send dgram3 ipC] ifA)))
     = outgoing_frames (tick wire_env 6000 (run wire_env [Send dgram1 ipB, Send dgram3 ipC] ifA))
   \<and> arp_clock (tick wire_env_rev 6000 (run wire_env [Send dgram1 ipB, Send dgram3 ipC] ifA))
     = [(0x02020202, - 1)]
   \<and> outgoing_frames (send_datagram wire_env_rev dgram2 ipB
        (tick wire_env_rev 6000 (run wire_env [Send dgram1 ipB, Send dgram3 ipC] ifA)))
     = outgoing_frames
         (tick wire_env_rev 6000 (run wire_env [Send dgram1 ipB, Send dgram3 ipC] ifA))
   \<and> arp_clock (run wire_env [Send dgram1 ipB, Tick 2147483648] ifA)
     = [(0x02020202, 2147483647)]
   \<and> outgoing_frames (run wire_env [Send dgram1 ipB, Tick 2147483648, Send dgram2 ipB] ifA)
     = [request_frame wire_env ifA 0x02020202, empty_frame, empty_frame]"
  by (simp add: model_defs wire_defs upt_rec)

text \<open>
  C8, for small ticks and neighbours that stay cached. A cached address on an
  interface whose other age records are all non-negative and do not reach the TTL
  within the ticks considered: while its age plus the ticks stays below 30000 ms the
  record is that sum and a send uses the cached hardware address; the tick with which
  the sum reaches 30000 ms or more removes the cache entry and the record together;
  the next send pushes a new ARP request and defers the datagram.
\<close>

theorem C8_ttl_eviction:
  assumes "order_ok ev"
    and "distinct (map fst (arp_clock ni))"
    and "map_of (arp_clock ni) (ipv4_numeric nh) = Some c" and "0 \<le> c"
    and "map_of (arp_table ni) (ipv4_numeric nh) = Some mac"
    and "\<forall>j cj. j \<noteq> ipv4_numeric nh \<and> map_of (arp_clock ni) j = Some cj
           \<longrightarrow> 0 \<le> cj \<and> cj + sum_list (map uint mss) + uint ms < 30000"
    and "list_all small_tick mss" and "small_tick ms"
    and "c + sum_list (map uint mss) < 30000"
    and "30000 \<le> c + sum_list (map uint mss) + uint ms"
    and "s2 = ticks ev mss ni"
    and "s3 = tick ev ms s2"
  shows "map_of (arp_clock s2) (ipv4_numeric nh) = Some (c + sum_list (map uint mss))
       \<and> map_of (arp_table s2) (ipv4_numeric nh) = Some mac
       \<and> outgoing_frames (send_datagram ev d nh s2)
           = outgoing_frames s2
             @ [\<lparr>header = \<lparr>dst = mac, src = ethernet_address ni, type = TYPE_IPv4\<rparr>,
                 payload = serialize_dgram ev d\<rparr>]
       \<and> map_of (arp_clock s3) (ipv4_numeric nh) = None
       \<and> map_of (arp_table s3) (ipv4_numeric nh) = None
       \<and> outgoing_frames (send_datagram ev d nh s3)
           = outgoing_frames s3 @ [request_frame ev ni (ipv4_numeric nh)]
       \<and> dgram_table (send_datagram ev d nh s3) = dgram_table s3 @ [(nh, d)]
       \<and> map_of (arp_clock (send_datagram ev d nh s3)) (ipv4_numeric nh) = Some (- 1)"
proof -
  let ?k = "ipv4_numeric nh"
  let ?sum = "sum_list (map uint mss)"
  let ?lim = "30000 - (?sum + uint ms)"
  have nn: "0 \<le> ?sum" by (rule sum_uint_nonneg)
  have o0: "others_cached ni ?k (30000 - (?sum + uint ms))"
  proof (rule others_cachedI [where l = "arp_clock ni"])
    show "distinct (map fst (arp_clock ni))" by (rule assms(2))
    show "arp_clock ni = arp_clock ni" by simp
    fix j cj assume "j \<noteq> ?k" "map_of (arp_clock ni) j = Some cj"
    with assms(6) have "0 \<le> cj \<and> cj + ?sum + uint ms < 30000" by blast
    then show "0 \<le> cj \<and> cj + (?sum + uint ms) < 30000" by linarith
  qed
  have b: "?lim + ?sum \<le> 30000" by simp
  from ticks_resolved_among_cached [OF assms(1,7) o0 b assms(3,4,9)]
  have c2: "map_of (arp_clock s2) ?k = Some (c + ?sum)"
    and m2: "map_of (arp_table s2) ?k = Some mac"
    and o2: "others_cached s2 ?k (?lim + ?sum)"
    by (simp_all add: assms(11) assms(5))
  have a2: "ethernet_address s2 = ethernet_address ni" "ip_address s2 = ip_address ni"
    by (simp_all add: assms(11) addr_ticks)
  from send_cached [OF m2, of ev d] a2
  have f2: "outgoing_frames (send_datagram ev d nh s2)
           = outgoing_frames s2
             @ [\<lparr>header = \<lparr>dst = mac, src = ethernet_address ni, type = TYPE_IPv4\<rparr>,
                 payload = serialize_dgram ev d\<rparr>]"
    by simp
  have pos: "0 \<le> c + ?sum" using assms(4) nn by linarith
  have b3: "?lim + ?sum + uint ms \<le> 30000" by simp
  from tick_resolved_among_cached [OF assms(1,8) b3 o2 c2 pos assms(9)] assms(10)
  have c3: "map_of (arp_clock s3) ?k = None" and m3: "map_of (arp_table s3) ?k = None"
    by (simp_all add: assms(12))
  have a3: "ethernet_address s3 = ethernet_address ni" "ip_address s3 = ip_address ni"
    by (simp_all add: assms(12) eth_tick ip_tick a2)
  have U3: "Unknown s3 ?k" by (simp add: Unknown_def m3 c3)
  have r3: "request_frame ev s3 ?k = request_frame ev ni ?k"
    by (simp add: request_frame_def arp_request_def a3)
  from send_unknown [OF U3, of ev d] r3
  have p3: "outgoing_frames (send_datagram ev d nh s3)
           = outgoing_frames s3 @ [request_frame ev ni ?k]"
    "dgram_table (send_datagram ev d nh s3) = dgram_table s3 @ [(nh, d)]"
    "map_of (arp_clock (send_datagram ev d nh s3)) ?k = Some (- 1)"
    by (simp_all add: update_conv')
  from c2 m2 f2 c3 m3 p3 show ?thesis by simp
qed

theorem C8_witness:
  "order_ok wire_env
   \<and> arp_clock (run wire_env [Recv reply_from_B, Tick 100, Recv reply_from_C] ifA)
       = [(0x02020202, 100), (0x03030303, 0)]
   \<and> map_of (arp_table (run wire_env [Recv reply_from_B, Tick 100, Recv reply_from_C] ifA))
        (ipv4_numeric ipB) = Some macB
   \<and> list_all small_tick [10000, 19899] \<and> small_tick 1
   \<and> 100 + sum_list (map uint [10000, 19899 :: 64 word]) < 30000
   \<and> 30000 \<le> 100 + sum_list (map uint [10000, 19899 :: 64 word]) + uint (1 :: 64 word)
   \<and> arp_clock (ticks wire_env [10000, 19899]
        (run wire_env [Recv reply_from_B, Tick 100, Recv reply_from_C] ifA))
       = [(0x02020202, 29999), (0x03030303, 29899)]
   \<and> map_of (arp_clock (tick wire_env 1 (ticks wire_env [10000, 19899]
        (run wire_env [Recv reply_from_B, Tick 100, Recv reply_from_C] ifA)))) 0x02020202 = None
   \<and> map_of (arp_table (tick wire_env 1 (ticks wire_env [10000, 19899]
        (run wire_env [Recv reply_from_B, Tick 100, Recv reply_from_C] ifA)))) 0x02020202 = None
   \<and> outgoing_frames (send_datagram wire_env dgram1 ipB (tick wire_env 1
        (ticks wire_env [10000, 19899]
          (run wire_env [Recv reply_from_B, Tick 100, Recv reply_from_C] ifA))))
       = [request_frame wire_env ifA 0x02020202]"
proof -
  let ?ni = "run wire_env [Recv reply_from_B, Tick 100, Recv reply_from_C] ifA"
  let ?s3 = "tick wire_env 1 (ticks wire_env [10000, 19899] ?ni)"
  have cl: "arp_clock ?ni = [(0x02020202, 100), (0x03030303, 0)]"
    by (simp add: wire_defs model_defs upt_rec)
  have h2: "distinct (map fst (arp_clock ?ni))" by (simp add: cl)
  have h3: "map_of (arp_clock ?ni) (ipv4_numeric ipB) = Some 100" by (simp add: cl ipB_def)
  have h5: "map_of (arp_table ?ni) (ipv4_numeric ipB) = Some macB"
    by (simp add: wire_defs model_defs upt_rec)
  have h6: "\<forall>j cj. j \<noteq> ipv4_numeric ipB \<and> map_of (arp_clock ?ni) j = Some cj
           \<longrightarrow> 0 \<le> cj \<and> cj + sum_list (map uint [10000, 19899 :: 64 word]) + uint (1 :: 64 word) < 30000"
    by (auto simp: cl ipB_def split: if_splits)
  have h7: "list_all small_tick [10000, 19899]" by (simp add: small_tick_def)
  have h8: "small_tick 1" by (simp add: small_tick_def)
  have h9: "100 + sum_list (map uint [10000, 19899 :: 64 word]) < 30000" by simp
  have h10: "30000 \<le> 100 + sum_list (map uint [10000, 19899 :: 64 word]) + uint (1 :: 64 word)"
    by simp
  have c2: "arp_clock (ticks wire_env [10000, 19899] ?ni)
       = [(0x02020202, 29999), (0x03030303, 29899)]"
    by (simp add: wire_defs model_defs upt_rec)
  have o3: "outgoing_frames ?s3 = []"
    by (simp add: wire_defs model_defs upt_rec)
  have r: "request_frame wire_env ?ni 0x02020202 = request_frame wire_env ifA 0x02020202"
    by (simp add: wire_defs model_defs upt_rec)
  from C8_ttl_eviction [OF order_ok_wire h2 h3 _ h5 h6 h7 h8 h9 h10 refl refl, of dgram1] o3 r
  have "map_of (arp_clock ?s3) 0x02020202 = None
      \<and> map_of (arp_table ?s3) 0x02020202 = None
      \<and> outgoing_frames (send_datagram wire_env dgram1 ipB ?s3)
       = [request_frame wire_env ifA 0x02020202]"
    by (simp add: ipB_def)
  with order_ok_wire cl h5 h7 h8 h9 h10 c2 show ?thesis by blast
qed

text \<open>
  With two cached addresses a tick of 30000 ms evicts only the one it visits first;
  the other keeps age 0 and a send to it uses the mapping, in either visiting order.
  And one tick of \<open>2^31\<close> ms on a single cached address wraps its age to a negative
  value: it is not evicted and the next send uses the mapping.
\<close>

theorem C8_counterexample:
  "arp_clock (tick wire_env 30000 (run wire_env [Recv reply_from_B, Recv reply_from_C] ifA))
     = [(0x03030303, 0)]
   \<and> outgoing_frames (send_datagram wire_env dgram3 ipC
        (tick wire_env 30000 (run wire_env [Recv reply_from_B, Recv reply_from_C] ifA)))
     = [\<lparr>header = \<lparr>dst = macC, src = macA, type = TYPE_IPv4\<rparr>, payload = dgram3\<rparr>]
   \<and> arp_clock (tick wire_env_rev 30000
        (run wire_env [Recv reply_from_B, Recv reply_from_C] ifA))
     = [(0x02020202, 0)]
   \<and> outgoing_frames (send_datagram wire_env_rev dgram1 ipB
        (tick wire_env_rev 30000 (run wire_env [Recv reply_from_B, Recv reply_from_C] ifA)))
     = [\<lparr>header = \<lparr>dst = macB, src = macA, type = TYPE_IPv4\<rparr>, payload = dgram1\<rparr>]
   \<and> arp_clock (run wire_env [Recv reply_from_B, Tick 2147483648] ifA)
     = [(0x02020202, - 2147483648)]
   \<and> outgoing_frames (run wire_env [Recv reply_from_B, Tick 2147483648, Send dgram1 ipB] ifA)
     = [\<lparr>header = \<lparr>dst = macB, src = macA, type = TYPE_IPv4\<rparr>, payload = dgram1\<rparr>]"
  by (simp add: model_defs wire_defs upt_rec)

section \<open>Where the source departs from the specification\<close>

text \<open>
  C1. Two pending addresses and one tick of 10 ms: only the record the loop visits
  first is advanced, the other keeps its value, in either visiting order.
\<close>

theorem C1_tick_ages_one_pending_record:
  "arp_clock (run wire_env [Send dgram1 ipB, Send dgram3 ipC] ifA)
     = [(0x02020202, - 1), (0x03030303, - 1)]
   \<and> arp_clock (tick wire_env 10 (run wire_env [Send dgram1 ipB, Send dgram3 ipC] ifA))
     = [(0x02020202, - 11), (0x03030303, - 1)]
   \<and> arp_clock (tick wire_env_rev 10 (run wire_env [Send dgram1 ipB, Send dgram3 ipC] ifA))
     = [(0x02020202, - 1), (0x03030303, - 11)]"
  by (simp add: model_defs wire_defs upt_rec)

text \<open>
  C2. With a deferred datagram whose next hop is resolved, a delivered IPv4 frame
  returns the datagram and leaves the state as it was, although a flush would have
  taken the datagram out of the queue.
\<close>

theorem C2_delivered_datagram_skips_flush:
  "dgram_table (run wire_env [Send dgram1 ipB, Send dgram2 ipB, Recv reply_from_B] ifA)
     = [(ipB, dgram2)]
   \<and> clock_ready (run wire_env [Send dgram1 ipB, Send dgram2 ipB, Recv reply_from_B] ifA)
        (ipv4_numeric ipB)
   \<and> recv_frame wire_env ipv4_frame
        (run wire_env [Send dgram1 ipB, Send dgram2 ipB, Recv reply_from_B] ifA)
     = (Some dgram3, run wire_env [Send dgram1 ipB, Send dgram2 ipB, Recv reply_from_B] ifA)
   \<and> dgram_table (retrieve_datagram wire_env
        (run wire_env [Send dgram1 ipB, Send dgram2 ipB, Recv reply_from_B] ifA))
     = []"
  by (simp add: model_defs wire_defs wire2 upt_rec)

text \<open>
  C6. On the interface with address 0.0.0.0, an ARP frame whose payload stops after
  the opcode fails to parse, and \<open>recv_frame\<close> still pushes a reply frame.
\<close>

theorem C6_failed_parse_still_replies:
  "parse_arp wire_env (payload truncated_request)
     = (False, \<lparr>opcode = OPCODE_REQUEST, sender_ethernet_address = 0, sender_ip_address = 0,
                target_ethernet_address = 0, target_ip_address = 0\<rparr>)
   \<and> recv_frame wire_env truncated_request if0
     = (None, if0\<lparr>outgoing_frames :=
                [\<lparr>header = \<lparr>dst = 0, src = macA, type = TYPE_ARP\<rparr>,
                  payload = [0, 1, 8, 0, 6, 4, 0, 2, 170, 170, 170, 170, 170, 170,
                             0, 0, 0, 0, 0, 0, 0, 0, 0, 0, 0, 0, 0, 0]\<rparr>]\<rparr>)"
  by (simp add: model_defs wire_defs wire2 upt_rec)

end
